theory Spec2Isabelle
  imports Complex_Main "HOL-Library.Log_Nat" "HOL-Library.Multiset"
begin

section \<open>Python values used by the job\<close>

text \<open>
  The job \<^verbatim>\<open>src/spark/cycle_step_analysis.py\<close> is a PySpark streaming script. Its own
  code is a chain of lambdas over the records of one micro-batch (one window) and a
  batching loop that sends the results to Cassandra. The lambdas read tuples by index,
  convert text with \<^verbatim>\<open>int\<close> and \<^verbatim>\<open>float\<close>, and compute with Python floats. Each of these
  can raise, so every stage returns \<open>py_error + 'a\<close>, with \<open>Inl\<close> for the exception.
\<close>

datatype py_error = IndexError | ValueError | ZeroDivisionError

definition bind :: "py_error + 'a \<Rightarrow> ('a \<Rightarrow> py_error + 'b) \<Rightarrow> py_error + 'b" where
  "bind m f = (case m of Inl e \<Rightarrow> Inl e | Inr v \<Rightarrow> f v)"

text \<open>Applying a lambda that may raise to every record: the first exception ends the stage.\<close>

fun mapM :: "('a \<Rightarrow> py_error + 'b) \<Rightarrow> 'a list \<Rightarrow> py_error + 'b list" where
  "mapM f [] = Inr []"
| "mapM f (x # xs) = bind (f x) (\<lambda>y. bind (mapM f xs) (\<lambda>ys. Inr (y # ys)))"

fun filterM :: "('a \<Rightarrow> py_error + bool) \<Rightarrow> 'a list \<Rightarrow> py_error + 'a list" where
  "filterM p [] = Inr []"
| "filterM p (x # xs) =
     bind (p x) (\<lambda>b. bind (filterM p xs) (\<lambda>ys. Inr (if b then x # ys else ys)))"

text \<open>\<^verbatim>\<open>x[i]\<close> for a literal index \<open>i \<ge> 0\<close>: IndexError when the tuple or string is too short.\<close>

definition index :: "'a list \<Rightarrow> nat \<Rightarrow> py_error + 'a" where
  "index xs i = (if i < length xs then Inr (xs ! i) else Inl IndexError)"

subsection \<open>Floats\<close>

text \<open>
  A Python float is an IEEE 754 binary64 number: 53 bits of precision, exponents from
  \<open>-1022\<close> to \<open>1023\<close>, subnormal numbers below, every operation rounded to the nearest
  representable number with ties to the even mantissa, overflow to an infinity. A finite
  float is carried as the rational it denotes. The two zeros are not told apart (the job
  never divides by a computed value nor prints a sign), and NaN is a single value.
\<close>

datatype pyfloat = Finite rat | PInf | NInf | NaN

definition pow2 :: "int \<Rightarrow> rat" where
  "pow2 k = (if 0 \<le> k then 2 ^ nat k else 1 / 2 ^ nat (- k))"

text \<open>\<open>ilog2 q\<close> is the exponent \<open>e\<close> with \<open>2^e \<le> q < 2^(e+1)\<close>, for \<open>q > 0\<close>.\<close>

definition ilog2 :: "rat \<Rightarrow> int" where
  "ilog2 q = (case quotient_of q of (n, d) \<Rightarrow>
     (let k = bitlen n - bitlen d in if pow2 k \<le> q then k else k - 1))"

text \<open>Rounding to the nearest integer, ties to even.\<close>

definition rne :: "rat \<Rightarrow> int" where
  "rne x = (let f = \<lfloor>x\<rfloor>; d = x - of_int f in
     if d < 1 / 2 then f else if 1 / 2 < d then f + 1 else if even f then f else f + 1)"

text \<open>The float nearest to an exact result \<open>q\<close>.\<close>

definition rnd :: "rat \<Rightarrow> pyfloat" where
  "rnd q = (if q = 0 then Finite 0 else
     (let e = max (ilog2 \<bar>q\<bar>) (- 1022); u = pow2 (e - 52);
          r = of_int (rne (\<bar>q\<bar> / u)) * u
      in if pow2 1024 \<le> r then (if 0 < q then PInf else NInf) else Finite (sgn q * r)))"

text \<open>The magnitude of the float nearest to a positive \<open>q\<close>, before the overflow test.\<close>

definition rmag :: "rat \<Rightarrow> rat" where
  "rmag q = (let e = max (ilog2 q) (- 1022); u = pow2 (e - 52) in of_int (rne (q / u)) * u)"

fun fadd :: "pyfloat \<Rightarrow> pyfloat \<Rightarrow> pyfloat" where
  "fadd (Finite a) (Finite b) = rnd (a + b)"
| "fadd (Finite a) PInf = PInf"
| "fadd (Finite a) NInf = NInf"
| "fadd PInf (Finite b) = PInf"
| "fadd PInf PInf = PInf"
| "fadd NInf (Finite b) = NInf"
| "fadd NInf NInf = NInf"
| "fadd PInf NInf = NaN"
| "fadd NInf PInf = NaN"
| "fadd NaN y = NaN"
| "fadd x NaN = NaN"

text \<open>The sign of a float that is not NaN: \<open>-1\<close>, \<open>0\<close> or \<open>1\<close>.\<close>

definition fsgn :: "pyfloat \<Rightarrow> int" where
  "fsgn x = (case x of Finite a \<Rightarrow> (if a < 0 then - 1 else if a = 0 then 0 else 1)
              | PInf \<Rightarrow> 1 | NInf \<Rightarrow> - 1 | NaN \<Rightarrow> 0)"

definition fmul :: "pyfloat \<Rightarrow> pyfloat \<Rightarrow> pyfloat" where
  "fmul x y = (case (x, y) of
       (Finite a, Finite b) \<Rightarrow> rnd (a * b)
     | (NaN, _) \<Rightarrow> NaN
     | (_, NaN) \<Rightarrow> NaN
     | _ \<Rightarrow> (let s = fsgn x * fsgn y in if s = 0 then NaN else if 0 < s then PInf else NInf))"

text \<open>
  The IEEE quotient by a divisor that is not zero. Python raises ZeroDivisionError on a
  zero divisor instead of returning an infinity or NaN: that is \<open>fdiv\<close>.
\<close>

definition ieee_div :: "pyfloat \<Rightarrow> pyfloat \<Rightarrow> pyfloat" where
  "ieee_div x y = (case (x, y) of
       (Finite a, Finite b) \<Rightarrow> rnd (a / b)
     | (NaN, _) \<Rightarrow> NaN
     | (_, NaN) \<Rightarrow> NaN
     | (Finite a, _) \<Rightarrow> Finite 0
     | (_, Finite b) \<Rightarrow> (if 0 < fsgn x * fsgn y then PInf else NInf)
     | _ \<Rightarrow> NaN)"

definition fdiv :: "pyfloat \<Rightarrow> pyfloat \<Rightarrow> py_error + pyfloat" where
  "fdiv x y = (if y = Finite 0 then Inl ZeroDivisionError else Inr (ieee_div x y))"

text \<open>Python's \<^verbatim>\<open><=\<close> on floats: false whenever an operand is NaN.\<close>

definition fle :: "pyfloat \<Rightarrow> pyfloat \<Rightarrow> bool" where
  "fle x y = (case (x, y) of
       (NaN, _) \<Rightarrow> False
     | (_, NaN) \<Rightarrow> False
     | (Finite a, Finite b) \<Rightarrow> a \<le> b
     | (NInf, _) \<Rightarrow> True
     | (_, PInf) \<Rightarrow> True
     | _ \<Rightarrow> False)"

text \<open>
  The values of the float type: a finite one is a number that rounding leaves unchanged.
\<close>

definition is_float :: "pyfloat \<Rightarrow> bool" where
  "is_float x = (case x of Finite a \<Rightarrow> rnd a = Finite a | _ \<Rightarrow> True)"

subsection \<open>Text\<close>

text \<open>
  Text is a list of characters, one per byte; the model reads ASCII text.
  \<^verbatim>\<open>strip()\<close> removes the whitespace of ASCII at both ends
  (tab, line feed, vertical tab, form feed, carriage return, the four separators
  \<open>0x1c\<close> to \<open>0x1f\<close> and the space); \<^verbatim>\<open>split(",")\<close> cuts at every comma and always
  returns at least one field; \<^verbatim>\<open>upper()\<close> maps \<open>a\<close> to \<open>z\<close> to capitals.
\<close>

definition is_space :: "char \<Rightarrow> bool" where
  "is_space c = (let n = (of_char c :: nat) in (9 \<le> n \<and> n \<le> 13) \<or> (28 \<le> n \<and> n \<le> 32))"

definition strip :: "string \<Rightarrow> string" where
  "strip s = rev (dropWhile is_space (rev (dropWhile is_space s)))"

fun split :: "char \<Rightarrow> string \<Rightarrow> string list" where
  "split d [] = [[]]"
| "split d (c # cs) =
     (if c = d then [] # split d cs
      else (case split d cs of [] \<Rightarrow> [[c]] | f # fs \<Rightarrow> (c # f) # fs))"

definition upper :: "char \<Rightarrow> char" where
  "upper c = (let n = (of_char c :: nat) in if 97 \<le> n \<and> n \<le> 122 then char_of (n - 32) else c)"

definition lower :: "char \<Rightarrow> char" where
  "lower c = (let n = (of_char c :: nat) in if 65 \<le> n \<and> n \<le> 90 then char_of (n + 32) else c)"

definition is_digit :: "char \<Rightarrow> bool" where
  "is_digit c = (let n = (of_char c :: nat) in 48 \<le> n \<and> n \<le> 57)"

definition digits_val :: "string \<Rightarrow> nat" where
  "digits_val s = foldl (\<lambda>a c. 10 * a + (of_char c - 48)) 0 s"

text \<open>A leading sign, as \<^verbatim>\<open>int\<close> and \<^verbatim>\<open>float\<close> read it: whether it is a minus, and the rest.\<close>

definition take_sign :: "string \<Rightarrow> bool \<times> string" where
  "take_sign s = (case s of [] \<Rightarrow> (False, [])
     | c # cs \<Rightarrow> if c = CHR ''-'' then (True, cs) else if c = CHR ''+'' then (False, cs)
                else (False, s))"

text \<open>
  \<^verbatim>\<open>int(x)\<close> on text: surrounding whitespace, an optional sign, then one or more decimal
  digits; ValueError otherwise. Python ints are unbounded. The digits are those of ASCII;
  the underscores that Python 3.6 and later allow between digits are not part of the
  model, nor are they in \<^verbatim>\<open>float\<close> below.
\<close>

definition py_int :: "string \<Rightarrow> py_error + int" where
  "py_int s = (case take_sign (strip s) of (neg, r) \<Rightarrow>
     if r \<noteq> [] \<and> list_all is_digit r
     then Inr (if neg then - int (digits_val r) else int (digits_val r))
     else Inl ValueError)"

text \<open>
  \<^verbatim>\<open>float(x)\<close> on text: surrounding whitespace, an optional sign, then \<^verbatim>\<open>inf\<close>,
  \<^verbatim>\<open>infinity\<close> or \<^verbatim>\<open>nan\<close> in any case, or a decimal numeral (digits with an optional point,
  at least one digit, an optional exponent \<^verbatim>\<open>e\<close> with its own sign); ValueError otherwise.
  The result is the float nearest to the decimal value.
\<close>

definition pow10 :: "int \<Rightarrow> rat" where
  "pow10 k = (if 0 \<le> k then 10 ^ nat k else 1 / 10 ^ nat (- k))"

definition parse_exponent :: "string \<Rightarrow> int option" where
  "parse_exponent s = (case s of [] \<Rightarrow> Some 0
     | c # cs \<Rightarrow>
         if c = CHR ''e'' \<or> c = CHR ''E'' then
           (case take_sign cs of (neg, r) \<Rightarrow>
              if r \<noteq> [] \<and> list_all is_digit r
              then Some (if neg then - int (digits_val r) else int (digits_val r))
              else None)
         else None)"

definition parse_decimal :: "string \<Rightarrow> rat option" where
  "parse_decimal s =
     (let ip = takeWhile is_digit s; r1 = dropWhile is_digit s;
          has_point = (r1 \<noteq> [] \<and> hd r1 = CHR ''.'');
          fp = (if has_point then takeWhile is_digit (tl r1) else []);
          r2 = (if has_point then dropWhile is_digit (tl r1) else r1)
      in if ip = [] \<and> fp = [] then None
         else (case parse_exponent r2 of None \<Rightarrow> None
               | Some ex \<Rightarrow> Some (of_nat (digits_val (ip @ fp)) * pow10 (ex - int (length fp)))))"

definition py_float :: "string \<Rightarrow> py_error + pyfloat" where
  "py_float s = (case take_sign (strip s) of (neg, r) \<Rightarrow>
     (let l = map lower r in
      if l = ''inf'' \<or> l = ''infinity'' then Inr (if neg then NInf else PInf)
      else if l = ''nan'' then Inr NaN
      else (case parse_decimal r of None \<Rightarrow> Inl ValueError
            | Some q \<Rightarrow> Inr (rnd (if neg then - q else q)))))"

section \<open>The stages of \<^verbatim>\<open>summarize_step_data\<close>\<close>

text \<open>
  A window is the list of Kafka messages of one micro-batch, each a pair of a routing key
  and the text line. The stages below are the lambdas of the source, one definition per
  lambda, and the Spark operations \<^verbatim>\<open>map\<close>, \<^verbatim>\<open>reduceByKey\<close> and \<^verbatim>\<open>filter\<close> over the list.
\<close>

type_synonym kafka_msg = "string option \<times> string"

text \<open>The key: battery id, group, cycle, step.\<close>

type_synonym key = "string \<times> string \<times> int \<times> string"

text \<open>A reading: date-time, voltage, current, previous voltage, step time.\<close>

type_synonym reading = "string \<times> pyfloat \<times> pyfloat \<times> pyfloat \<times> pyfloat"

text \<open>Capacity, energy, power, counts.\<close>

type_synonym metrics = "pyfloat \<times> pyfloat \<times> pyfloat \<times> int"

definition capacity_sum :: "metrics \<Rightarrow> pyfloat" where
  "capacity_sum m = fst m"

definition energy_sum :: "metrics \<Rightarrow> pyfloat" where
  "energy_sum m = fst (snd m)"

definition power_sum :: "metrics \<Rightarrow> pyfloat" where
  "power_sum m = fst (snd (snd m))"

definition sample_count :: "metrics \<Rightarrow> int" where
  "sample_count m = snd (snd (snd m))"

text \<open>Step, group, cycle, battery id, capacity, energy, power sum, counts.\<close>

type_synonym summary =
  "string \<times> string \<times> int \<times> string \<times> pyfloat \<times> pyfloat \<times> pyfloat \<times> int"

definition DELTA_TIME :: pyfloat where "DELTA_TIME = Finite 1"
definition CAP_CONVERSION :: pyfloat where "CAP_CONVERSION = Finite 3600000"
definition ENG_CONVERSION :: pyfloat where "ENG_CONVERSION = Finite 3600000"
definition PWR_CONVERSION :: pyfloat where "PWR_CONVERSION = Finite 1000"

text \<open>\<^verbatim>\<open>lambda ln: tuple(x.strip() for x in ln[1].strip().split(","))\<close>\<close>

definition parse_line :: "kafka_msg \<Rightarrow> string list" where
  "parse_line msg = map strip (split CHR '','' (strip (snd msg)))"

text \<open>
  The lambda of \<^verbatim>\<open>paired_rdd\<close>. Python builds the two tuples from left to right, so the
  first index or conversion that fails decides the exception. \<^verbatim>\<open>str\<close> of text is the text.
\<close>

definition paired :: "string list \<Rightarrow> py_error + key \<times> reading" where
  "paired x =
     bind (index x 0) (\<lambda>x0.
     bind (index x 1) (\<lambda>x1.
     bind (index x 2) (\<lambda>x2.
     bind (py_int x2) (\<lambda>cycle.
     bind (index x 3) (\<lambda>x3.
     bind (index x 4) (\<lambda>x4.
     bind (index x 5) (\<lambda>x5.
     bind (py_float x5) (\<lambda>voltage.
     bind (index x 6) (\<lambda>x6.
     bind (py_float x6) (\<lambda>current.
     bind (index x 7) (\<lambda>x7.
     bind (py_float x7) (\<lambda>prev_voltage.
     bind (index x 8) (\<lambda>x8.
     bind (py_float x8) (\<lambda>step_time.
       Inr ((x0, x1, cycle, x3), (x4, voltage, current, prev_voltage, step_time))))))))))))))))"

text \<open>
  The lambda of \<^verbatim>\<open>inst_rdd\<close>. \<^verbatim>\<open>a * b / c\<close> is \<^verbatim>\<open>(a * b) / c\<close>; the integer \<^verbatim>\<open>2\<close> becomes
  the float \<open>2.0\<close> in \<^verbatim>\<open>2 * ENG_CONVERSION\<close>.
\<close>

definition inst :: "key \<times> reading \<Rightarrow> py_error + key \<times> metrics" where
  "inst x = (case x of (k, (date_time, voltage, current, prev_voltage, step_time)) \<Rightarrow>
     bind (fdiv (fmul current DELTA_TIME) CAP_CONVERSION) (\<lambda>capacity.
     bind (fdiv (fmul (fmul current (fadd voltage prev_voltage)) DELTA_TIME)
                (fmul (Finite 2) ENG_CONVERSION)) (\<lambda>energy.
     bind (fdiv (fmul current voltage) PWR_CONVERSION) (\<lambda>pwr.
       Inr (k, (capacity, energy, pwr, 1))))))"

text \<open>The lambda of \<^verbatim>\<open>reduceByKey\<close>: the sum of two value tuples, field by field.\<close>

definition combine :: "metrics \<Rightarrow> metrics \<Rightarrow> metrics" where
  "combine i j = (case (i, j) of ((i0, i1, i2, i3), (j0, j1, j2, j3)) \<Rightarrow>
     (fadd i0 j0, fadd i1 j1, fadd i2 j2, i3 + j3))"

text \<open>
  \<^verbatim>\<open>reduceByKey(f)\<close> over the records of one partition, as PySpark's combiner runs it:
  the records are read in order; the first value of a key starts the key's entry, each
  later value \<open>v\<close> replaces the entry \<open>a\<close> by \<open>f a v\<close>. The result has one pair per key. Its
  order (here: first appearance) is not fixed by Spark and no statement below uses it.
\<close>

fun merge_value :: "('v \<Rightarrow> 'v \<Rightarrow> 'v) \<Rightarrow> ('k \<times> 'v) list \<Rightarrow> 'k \<times> 'v \<Rightarrow> ('k \<times> 'v) list" where
  "merge_value f [] (k, v) = [(k, v)]"
| "merge_value f ((k', a) # d) (k, v) =
     (if k' = k then (k', f a v) # d else (k', a) # merge_value f d (k, v))"

definition reduceByKey :: "('v \<Rightarrow> 'v \<Rightarrow> 'v) \<Rightarrow> ('k \<times> 'v) list \<Rightarrow> ('k \<times> 'v) list" where
  "reduceByKey f xs = foldl (merge_value f) [] xs"

text \<open>The lambda of \<^verbatim>\<open>summary_rdd\<close>.\<close>

definition summarize :: "key \<times> metrics \<Rightarrow> summary" where
  "summarize x = (case x of ((battery_id, grp, cycle, step), (capacity, energy, pwr, counts)) \<Rightarrow>
     (step, grp, cycle, battery_id, capacity, energy, pwr, counts))"

text \<open>
  The two filters: \<^verbatim>\<open>x[0][0].upper() == "D"\<close> and \<^verbatim>\<open>x[0][0].upper() == "C"\<close>, where
  \<^verbatim>\<open>x[0]\<close> is the step. \<^verbatim>\<open>x[0][0]\<close> raises IndexError on an empty step.
\<close>

definition step_is :: "char \<Rightarrow> summary \<Rightarrow> py_error + bool" where
  "step_is letter x = bind (index (fst x) 0) (\<lambda>c. Inr (upper c = letter))"

definition parsed_rdd :: "kafka_msg list \<Rightarrow> string list list" where
  "parsed_rdd kafka_stream = map parse_line kafka_stream"

definition paired_rdd :: "kafka_msg list \<Rightarrow> py_error + (key \<times> reading) list" where
  "paired_rdd kafka_stream = mapM paired (parsed_rdd kafka_stream)"

definition inst_rdd :: "kafka_msg list \<Rightarrow> py_error + (key \<times> metrics) list" where
  "inst_rdd kafka_stream = bind (paired_rdd kafka_stream) (mapM inst)"

definition total_rdd :: "kafka_msg list \<Rightarrow> py_error + (key \<times> metrics) list" where
  "total_rdd kafka_stream =
     bind (inst_rdd kafka_stream) (\<lambda>xs. Inr (reduceByKey combine xs))"

definition summary_rdd :: "kafka_msg list \<Rightarrow> py_error + summary list" where
  "summary_rdd kafka_stream =
     bind (total_rdd kafka_stream) (\<lambda>xs. Inr (map summarize xs))"

definition summarize_step_data :: "kafka_msg list \<Rightarrow> py_error + summary list \<times> summary list" where
  "summarize_step_data kafka_stream =
     bind (summary_rdd kafka_stream) (\<lambda>s.
     bind (filterM (step_is CHR ''D'') s) (\<lambda>discharge_rdd.
     bind (filterM (step_is CHR ''C'') s) (\<lambda>charge_rdd.
       Inr (discharge_rdd, charge_rdd))))"

section \<open>The writer: \<^verbatim>\<open>send_partition\<close>\<close>

text \<open>
  An entry is what the main module hands to the writer: group, cycle, battery id and one
  metric. The prepared statement is
  \<^verbatim>\<open>UPDATE <table> SET metric = ? + metric WHERE group = ? AND cycle = ? AND id = ?\<close>
  and it is the only statement the writer prepares. A bound statement keeps the table name
  and the four parameters: the one-element sequence \<^verbatim>\<open>ValueSequence((e[3],))\<close>, then
  \<^verbatim>\<open>e[0]\<close>, \<^verbatim>\<open>e[1]\<close>, \<^verbatim>\<open>e[2]\<close>.
\<close>

type_synonym entry = "string \<times> int \<times> string \<times> pyfloat"

datatype cql_update =
  Update (table: string) (value_sequence: "pyfloat list")
         (where_group: string) (where_cycle: int) (where_id: string)

definition bind_update :: "string \<Rightarrow> entry \<Rightarrow> cql_update" where
  "bind_update table_name e = (case e of (e0, e1, e2, e3) \<Rightarrow> Update table_name [e3] e0 e1 e2)"

text \<open>
  The loop of \<^verbatim>\<open>send_partition\<close>, with its three variables: the batch being filled, its
  size, and the batches handed to \<^verbatim>\<open>db_session.execute\<close> so far, oldest first. The
  \<^verbatim>\<open>execute\<close> after the loop is not guarded: it runs on whatever the batch holds.
\<close>

fun send_loop ::
  "entry list \<Rightarrow> string \<Rightarrow> int \<Rightarrow> cql_update list \<Rightarrow> int \<Rightarrow> cql_update list list
     \<Rightarrow> cql_update list list" where
  "send_loop [] table_name crit_size cql_batch batch_size executed = executed @ [cql_batch]"
| "send_loop (e # entries) table_name crit_size cql_batch batch_size executed =
     (if batch_size + 1 = crit_size
      then send_loop entries table_name crit_size [] 0
             (executed @ [cql_batch @ [bind_update table_name e]])
      else send_loop entries table_name crit_size
             (cql_batch @ [bind_update table_name e]) (batch_size + 1) executed)"

definition send_partition :: "entry list \<Rightarrow> string \<Rightarrow> int \<Rightarrow> cql_update list list" where
  "send_partition entries table_name crit_size = send_loop entries table_name crit_size [] 0 []"

section \<open>The main module\<close>

text \<open>
  The four maps of the main module keep group, cycle and battery id, and one of the two
  stored metrics; the step and the other fields are left behind.
\<close>

definition capacity_entry :: "summary \<Rightarrow> entry" where
  "capacity_entry x = (case x of (x0, x1, x2, x3, x4, x5, x6, x7) \<Rightarrow> (x1, x2, x3, x4))"

definition energy_entry :: "summary \<Rightarrow> entry" where
  "energy_entry x = (case x of (x0, x1, x2, x3, x4, x5, x6, x7) \<Rightarrow> (x1, x2, x3, x5))"

text \<open>
  One window, with the results of one partition per table: \<^verbatim>\<open>save_to_database\<close> calls
  \<^verbatim>\<open>send_partition\<close> with the default \<^verbatim>\<open>crit_size\<close> of 500. The result lists, for each of
  the four tables, the batches executed on it.
\<close>

definition main_window :: "kafka_msg list \<Rightarrow> py_error + (string \<times> cql_update list list) list" where
  "main_window kafka_stream =
     bind (summarize_step_data kafka_stream) (\<lambda>r. case r of (discharge_rdd, charge_rdd) \<Rightarrow>
       Inr [(''discharge_capacity'',
               send_partition (map capacity_entry discharge_rdd) ''discharge_capacity'' 500),
            (''charge_capacity'',
               send_partition (map capacity_entry charge_rdd) ''charge_capacity'' 500),
            (''discharge_energy'',
               send_partition (map energy_entry discharge_rdd) ''discharge_energy'' 500),
            (''charge_energy'',
               send_partition (map energy_entry charge_rdd) ''charge_energy'' 500)])"

section \<open>The destination store\<close>

text \<open>
  Modelled from the spec: the destination store (Cassandra and the four tables' schema are
  not part of the source). The spec gives it a table keyed by group, cycle and id with one
  numeric column, and an additive merge: the written value is added to the stored one, and
  a row that is absent is created with the written value. A bound statement carries the
  value as a one-element sequence; the store adds the elements of the sequence in turn.
\<close>

type_synonym row = "string \<times> string \<times> int \<times> string"

type_synonym store = "row \<rightharpoonup> pyfloat"

definition merge_metric :: "row \<Rightarrow> store \<Rightarrow> pyfloat \<Rightarrow> store" where
  "merge_metric r st v = st(r \<mapsto> (case st r of None \<Rightarrow> v | Some old \<Rightarrow> fadd v old))"

definition target_row :: "cql_update \<Rightarrow> row" where
  "target_row u = (table u, where_group u, where_cycle u, where_id u)"

definition apply_update :: "store \<Rightarrow> cql_update \<Rightarrow> store" where
  "apply_update st u = foldl (merge_metric (target_row u)) st (value_sequence u)"

definition execute_batches :: "store \<Rightarrow> cql_update list list \<Rightarrow> store" where
  "execute_batches st batches = foldl (foldl apply_update) st batches"

text \<open>The key of a summary record, read back from its first four fields.\<close>

definition summary_key :: "summary \<Rightarrow> key" where
  "summary_key x =
     (case x of (step, grp, cycle, battery_id, rest) \<Rightarrow> (battery_id, grp, cycle, step))"

section \<open>Batches of the writer\<close>

lemma send_loop_concat:
  "concat (send_loop es t B batch n ex) = concat ex @ batch @ map (bind_update t) es"
  by (induction es arbitrary: batch n ex) auto

text \<open>
  The loop invariant: the size counter is the length of the batch being filled and stays
  below the threshold, and every batch executed inside the loop is full.
\<close>

lemma send_loop_shape:
  assumes "0 < B" "0 \<le> n" "n < B" "int (length batch) = n" "\<forall>b\<in>set ex. int (length b) = B"
  shows "int (length (send_loop es t B batch n ex)) =
           int (length ex) + (n + int (length es)) div B + 1
       \<and> int (length (last (send_loop es t B batch n ex))) = (n + int (length es)) mod B
       \<and> (\<forall>b\<in>set (butlast (send_loop es t B batch n ex)). int (length b) = B)"
  using assms
proof (induction es arbitrary: batch n ex)
  case Nil
  then show ?case by simp
next
  case (Cons e es)
  show ?case
  proof (cases "n + 1 = B")
    case True
    have IH: "int (length (send_loop es t B [] 0 (ex @ [batch @ [bind_update t e]]))) =
            int (length (ex @ [batch @ [bind_update t e]])) + (0 + int (length es)) div B + 1
        \<and> int (length (last (send_loop es t B [] 0 (ex @ [batch @ [bind_update t e]])))) =
            (0 + int (length es)) mod B
        \<and> (\<forall>b\<in>set (butlast (send_loop es t B [] 0 (ex @ [batch @ [bind_update t e]]))).
              int (length b) = B)"
      using Cons.prems True by (intro Cons.IH) auto
    have eq: "n + int (length (e # es)) = B + int (length es)"
      using True by simp
    have d: "(n + int (length (e # es))) div B = 1 + int (length es) div B"
      unfolding eq using Cons.prems(1) by simp
    have m: "(n + int (length (e # es))) mod B = int (length es) mod B"
      unfolding eq by simp
    show ?thesis unfolding d m using True IH by simp
  next
    case False
    have IH: "int (length (send_loop es t B (batch @ [bind_update t e]) (n + 1) ex)) =
            int (length ex) + ((n + 1) + int (length es)) div B + 1
        \<and> int (length (last (send_loop es t B (batch @ [bind_update t e]) (n + 1) ex))) =
            ((n + 1) + int (length es)) mod B
        \<and> (\<forall>b\<in>set (butlast (send_loop es t B (batch @ [bind_update t e]) (n + 1) ex)).
              int (length b) = B)"
      using Cons.prems False by (intro Cons.IH) auto
    have eq: "n + int (length (e # es)) = (n + 1) + int (length es)" by simp
    show ?thesis unfolding eq using False IH by simp
  qed
qed

lemma ceiling_div_plus_one:
  assumes "0 < (B::int)" "N mod B \<noteq> 0"
  shows "\<lceil>rat_of_int N / rat_of_int B\<rceil> = N div B + 1"
proof -
  have "\<lceil>rat_of_int N / rat_of_int B\<rceil> = - (- N div B)" by (rule ceiling_divide_eq_div)
  also have "- N div B = - (N div B) - 1" using assms by (simp add: zdiv_zminus1_eq_if)
  finally show ?thesis by simp
qed

text \<open>
  C3, as stated: \<open>N\<close> records and threshold \<open>B\<close> give \<open>ceil(N/B)\<close> executes, the last one with
  \<open>N mod B\<close> statements, or \<open>B\<close> when \<open>B\<close> divides \<open>N\<close>. It fails whenever \<open>B\<close> divides \<open>N\<close>:
  an empty partition with the default threshold of 500 is executed once (an empty batch)
  where \<open>ceil(0/500) = 0\<close>, and two records with threshold 2 are executed twice, the last
  batch empty, where the claim has one execute of two statements.
\<close>

theorem send_partition_ceiling_counterexample:
  "int (length (send_partition [] ''discharge_capacity'' 500)) \<noteq> \<lceil>rat_of_int 0 / rat_of_int 500\<rceil>
   \<and> send_partition [(''g1'', 1, ''bat1'', Finite 1), (''g1'', 2, ''bat1'', Finite 1)]
        ''discharge_capacity'' 2 =
      [[Update ''discharge_capacity'' [Finite 1] ''g1'' 1 ''bat1'',
        Update ''discharge_capacity'' [Finite 1] ''g1'' 2 ''bat1''], []]
   \<and> \<lceil>rat_of_int 2 / rat_of_int 2\<rceil> = 1"
  by (simp add: send_partition_def bind_update_def)

text \<open>
  C3, amended: for a threshold \<open>B > 0\<close> and \<open>N\<close> records the writer executes
  \<open>N div B + 1\<close> batches: \<open>N div B\<close> full batches of \<open>B\<close> statements, then one last batch of
  \<open>N mod B\<close> statements, which is empty when \<open>B\<close> divides \<open>N\<close>. The batches hold the
  statements of the records, one each, in order. The number of executes is \<open>ceil(N/B)\<close>
  exactly when \<open>B\<close> does not divide \<open>N\<close>.
\<close>

theorem send_partition_batches:
  assumes "0 < crit_size"
  shows "int (length (send_partition entries table_name crit_size)) =
           int (length entries) div crit_size + 1
       \<and> int (length (last (send_partition entries table_name crit_size))) =
           int (length entries) mod crit_size
       \<and> (\<forall>b\<in>set (butlast (send_partition entries table_name crit_size)).
             int (length b) = crit_size)
       \<and> concat (send_partition entries table_name crit_size) =
           map (bind_update table_name) entries
       \<and> (int (length entries) mod crit_size \<noteq> 0 \<longrightarrow>
             int (length (send_partition entries table_name crit_size)) =
               \<lceil>rat_of_int (int (length entries)) / rat_of_int crit_size\<rceil>)"
proof -
  have shape: "int (length (send_partition entries table_name crit_size)) =
           int (length entries) div crit_size + 1
       \<and> int (length (last (send_partition entries table_name crit_size))) =
           int (length entries) mod crit_size
       \<and> (\<forall>b\<in>set (butlast (send_partition entries table_name crit_size)).
             int (length b) = crit_size)"
    using send_loop_shape[of crit_size 0 "[]" "[]" entries table_name] assms
    by (simp add: send_partition_def)
  have all: "concat (send_partition entries table_name crit_size) =
           map (bind_update table_name) entries"
    by (simp add: send_partition_def send_loop_concat)
  show ?thesis
    using shape all ceiling_div_plus_one[OF assms, of "int (length entries)"] by simp
qed

theorem send_partition_batches_witness:
  "(0::int) < 2
   \<and> int (length (send_partition
        [(''g1'', 1, ''bat1'', Finite 1), (''g1'', 2, ''bat1'', Finite 1),
         (''g1'', 3, ''bat1'', Finite 1)] ''discharge_capacity'' 2)) = 2
   \<and> int (length (last (send_partition
        [(''g1'', 1, ''bat1'', Finite 1), (''g1'', 2, ''bat1'', Finite 1),
         (''g1'', 3, ''bat1'', Finite 1)] ''discharge_capacity'' 2))) = 1
   \<and> \<lceil>rat_of_int 3 / rat_of_int 2\<rceil> = 2"
  using send_partition_batches[of 2
      "[(''g1'', 1, ''bat1'', Finite 1), (''g1'', 2, ''bat1'', Finite 1),
        (''g1'', 3, ''bat1'', Finite 1)]" "''discharge_capacity''"]
  by simp

section \<open>What the writer sends to the store\<close>

lemma execute_batches_concat: "execute_batches st bs = foldl apply_update st (concat bs)"
  by (simp add: execute_batches_def) (induction bs arbitrary: st; simp)

text \<open>Cutting the statements into batches does not change what reaches the store.\<close>

lemma execute_send_partition:
  "execute_batches st (send_partition es t B) = foldl apply_update st (map (bind_update t) es)"
  by (simp add: execute_batches_concat send_partition_def send_loop_concat)

lemma apply_Update:
  "apply_update st (Update t [v] g c i) =
     st((t, g, c, i) \<mapsto> (case st (t, g, c, i) of None \<Rightarrow> v | Some old \<Rightarrow> fadd v old))"
  by (simp add: apply_update_def target_row_def merge_metric_def)

lemma bind_update_entry: "bind_update t (g, c, i, v) = Update t [v] g c i"
  by (simp add: bind_update_def)

lemma fadd_self: "fadd v v = fmul (Finite 2) v"
proof (cases v)
  case (Finite a)
  have "a + a = 2 * a" by simp
  then show ?thesis using Finite by (simp add: fmul_def)
qed (simp_all add: fmul_def fsgn_def)


lemma step_is_eq:
  "step_is l x = (case fst x of [] \<Rightarrow> Inl IndexError | c # cs \<Rightarrow> Inr (upper c = l))"
  by (simp add: step_is_def index_def bind_def split: list.splits)

lemma upper_examples:
  "upper CHR ''D'' = CHR ''D''" "upper CHR ''d'' = CHR ''D''"
  "upper CHR ''C'' = CHR ''C''" "upper CHR ''c'' = CHR ''C''"
  "upper CHR ''x'' = CHR ''X''"
  by code_simp+

text \<open>
  C5: every record handed to the writer becomes exactly one statement
  \<^verbatim>\<open>UPDATE t SET metric = ? + metric WHERE group = ? AND cycle = ? AND id = ?\<close>, bound to the
  record's metric and its group, cycle and battery id, and the writer sends nothing else:
  the executed batches, put end to end, are these statements in the order of the records.
  On the store of the spec such a statement adds the metric to the stored value of that row
  and creates the row when it is absent; it never overwrites. Sending the same record once
  into an empty store leaves its metric \<open>v\<close> in the row, sending it twice leaves \<open>2 * v\<close>.
\<close>

theorem writer_issues_additive_updates:
  "concat (send_partition entries t B) = map (bind_update t) entries
   \<and> bind_update t (g, c, i, v) = Update t [v] g c i
   \<and> apply_update st (Update t [v] g c i) =
       st((t, g, c, i) \<mapsto> (case st (t, g, c, i) of None \<Rightarrow> v | Some old \<Rightarrow> fadd v old))
   \<and> execute_batches Map.empty (send_partition [(g, c, i, v)] t B) = [(t, g, c, i) \<mapsto> v]
   \<and> execute_batches Map.empty (send_partition [(g, c, i, v), (g, c, i, v)] t B) =
       [(t, g, c, i) \<mapsto> fmul (Finite 2) v]"
proof -
  have 1: "concat (send_partition entries t B) = map (bind_update t) entries"
    by (simp add: send_partition_def send_loop_concat)
  have 3: "execute_batches Map.empty (send_partition [(g, c, i, v)] t B) = [(t, g, c, i) \<mapsto> v]"
    unfolding execute_send_partition by (simp add: bind_update_entry apply_Update)
  have 4: "execute_batches Map.empty (send_partition [(g, c, i, v), (g, c, i, v)] t B) =
       [(t, g, c, i) \<mapsto> fmul (Finite 2) v]"
    unfolding execute_send_partition by (simp add: bind_update_entry apply_Update fadd_self)
  show ?thesis using 1 bind_update_entry 3 4 apply_Update by simp
qed

text \<open>
  C9: two records of one window with the same battery id, group and cycle, whose steps
  start with the same letter (so that the same filter keeps both), are written to the same
  row \<open>(group, cycle, battery id)\<close> of the same table: the step is not part of an entry.
  On the store of the spec their metrics add up in that single row, for the capacity
  tables and for the energy tables.
\<close>

theorem steps_of_one_letter_share_a_row:
  assumes "step_is letter (s1, g, c, b, cap1, eng1, p1, n1) = Inr True"
      and "step_is letter (s2, g, c, b, cap2, eng2, p2, n2) = Inr True"
  shows "filterM (step_is letter)
           [(s1, g, c, b, cap1, eng1, p1, n1), (s2, g, c, b, cap2, eng2, p2, n2)]
           = Inr [(s1, g, c, b, cap1, eng1, p1, n1), (s2, g, c, b, cap2, eng2, p2, n2)]
     \<and> target_row (bind_update t (capacity_entry (s1, g, c, b, cap1, eng1, p1, n1))) = (t, g, c, b)
     \<and> target_row (bind_update t (capacity_entry (s2, g, c, b, cap2, eng2, p2, n2))) = (t, g, c, b)
     \<and> target_row (bind_update t (energy_entry (s1, g, c, b, cap1, eng1, p1, n1))) = (t, g, c, b)
     \<and> target_row (bind_update t (energy_entry (s2, g, c, b, cap2, eng2, p2, n2))) = (t, g, c, b)
     \<and> execute_batches Map.empty (send_partition (map capacity_entry
          [(s1, g, c, b, cap1, eng1, p1, n1), (s2, g, c, b, cap2, eng2, p2, n2)]) t B)
         = [(t, g, c, b) \<mapsto> fadd cap2 cap1]
     \<and> execute_batches Map.empty (send_partition (map energy_entry
          [(s1, g, c, b, cap1, eng1, p1, n1), (s2, g, c, b, cap2, eng2, p2, n2)]) t B)
         = [(t, g, c, b) \<mapsto> fadd eng2 eng1]"
  using assms
  by (simp add: bind_def execute_send_partition capacity_entry_def energy_entry_def
       bind_update_entry apply_Update) (simp add: target_row_def)

theorem steps_of_one_letter_share_a_row_witness:
  "step_is CHR ''D'' (''D1'', ''g1'', 1, ''bat1'', Finite 1, Finite 2, Finite 3, 4) = Inr True
   \<and> step_is CHR ''D'' (''D2'', ''g1'', 1, ''bat1'', Finite 5, Finite 6, Finite 7, 8) = Inr True
   \<and> filterM (step_is CHR ''D'')
        [(''D1'', ''g1'', 1, ''bat1'', Finite 1, Finite 2, Finite 3, 4),
         (''D2'', ''g1'', 1, ''bat1'', Finite 5, Finite 6, Finite 7, 8)] =
      Inr [(''D1'', ''g1'', 1, ''bat1'', Finite 1, Finite 2, Finite 3, 4),
           (''D2'', ''g1'', 1, ''bat1'', Finite 5, Finite 6, Finite 7, 8)]
   \<and> execute_batches Map.empty (send_partition (map capacity_entry
        [(''D1'', ''g1'', 1, ''bat1'', Finite 1, Finite 2, Finite 3, 4),
         (''D2'', ''g1'', 1, ''bat1'', Finite 5, Finite 6, Finite 7, 8)])
        ''discharge_capacity'' 500)
      = [(''discharge_capacity'', ''g1'', 1, ''bat1'') \<mapsto> fadd (Finite 5) (Finite 1)]"
proof -
  have a: "step_is CHR ''D'' (''D1'', ''g1'', 1, ''bat1'', Finite 1, Finite 2, Finite 3, 4) = Inr True"
    by (simp add: step_is_eq upper_examples)
  have b: "step_is CHR ''D'' (''D2'', ''g1'', 1, ''bat1'', Finite 5, Finite 6, Finite 7, 8) = Inr True"
    by (simp add: step_is_eq upper_examples)
  show ?thesis
    using steps_of_one_letter_share_a_row[OF a b, of "''discharge_capacity''" 500] a b
    by simp
qed

section \<open>Parsing a record\<close>

lemma bind_Inr_iff: "bind m f = Inr r \<longleftrightarrow> (\<exists>v. m = Inr v \<and> f v = Inr r)"
  by (cases m) (simp_all add: bind_def)

lemma bind_Inl_iff: "bind m f = Inl e \<longleftrightarrow> m = Inl e \<or> (\<exists>v. m = Inr v \<and> f v = Inl e)"
  by (cases m) (simp_all add: bind_def)

lemma index_Inr_iff: "index xs i = Inr v \<longleftrightarrow> i < length xs \<and> v = xs ! i"
  by (auto simp: index_def)

lemma index_Inl_iff: "index xs i = Inl e \<longleftrightarrow> \<not> i < length xs \<and> e = IndexError"
  by (auto simp: index_def)

lemma Inl_iff_not_Inr: "(\<exists>e. m = Inl e) \<longleftrightarrow> \<not> (\<exists>r. m = Inr r)"
  by (cases m) auto

lemma paired_Inr_iff:
  "paired x = Inr r \<longleftrightarrow>
     9 \<le> length x \<and>
     (\<exists>cycle voltage current prev_voltage step_time.
        py_int (x ! 2) = Inr cycle \<and> py_float (x ! 5) = Inr voltage \<and>
        py_float (x ! 6) = Inr current \<and> py_float (x ! 7) = Inr prev_voltage \<and>
        py_float (x ! 8) = Inr step_time \<and>
        r = ((x ! 0, x ! 1, cycle, x ! 3), (x ! 4, voltage, current, prev_voltage, step_time)))"
  unfolding paired_def bind_Inr_iff index_Inr_iff by auto

lemma py_int_error: "py_int s = Inl e \<Longrightarrow> e = ValueError"
  by (auto simp: py_int_def split: prod.splits if_splits)

lemma py_float_error: "py_float s = Inl e \<Longrightarrow> e = ValueError"
  by (auto simp: py_float_def Let_def split: prod.splits if_splits option.splits)

lemma paired_error: "paired x = Inl e \<Longrightarrow> e = IndexError \<or> e = ValueError"
  unfolding paired_def bind_Inl_iff index_Inl_iff
  by (auto dest: py_int_error py_float_error)

text \<open>A decimal numeral is read as the float nearest to its value.\<close>

lemma py_float_decimalI:
  "take_sign (strip s) = (neg, r) \<Longrightarrow> map lower r \<noteq> ''inf'' \<Longrightarrow> map lower r \<noteq> ''infinity''
   \<Longrightarrow> map lower r \<noteq> ''nan'' \<Longrightarrow> parse_decimal r = Some q
   \<Longrightarrow> py_float s = Inr (rnd (if neg then - q else q))"
  by (simp add: py_float_def)

lemma py_float_4_0: "py_float ''4.0'' = Inr (rnd 4)"
  by (rule py_float_decimalI[where neg=False and r="''4.0''" and q=4, simplified if_False])
    code_simp+

lemma py_float_2_0: "py_float ''2.0'' = Inr (rnd 2)"
  by (rule py_float_decimalI[where neg=False and r="''2.0''" and q=2, simplified if_False])
    code_simp+

lemma py_float_3_9: "py_float ''3.9'' = Inr (rnd (39 / 10))"
  by (rule py_float_decimalI[where neg=False and r="''3.9''" and q="39/10", simplified if_False])
    code_simp+

lemma py_float_0: "py_float ''0'' = Inr (rnd 0)"
  by (rule py_float_decimalI[where neg=False and r="''0''" and q=0, simplified if_False])
    code_simp+

lemma py_int_1: "py_int ''1'' = Inr 1"
  by code_simp

lemma py_int_minus_3: "py_int ''-3'' = Inr (- 3)"
  by code_simp

lemma parse_line_negative_cycle:
  "parse_line (None, ''bat1,g1,-3,D1,t,4.0,2.0,3.9,0'') =
     [''bat1'', ''g1'', ''-3'', ''D1'', ''t'', ''4.0'', ''2.0'', ''3.9'', ''0'']"
  by code_simp

lemma parse_line_ten_fields:
  "parse_line (None, ''bat1,g1,1,D1,t,4.0,2.0,3.9,0,extra'') =
     [''bat1'', ''g1'', ''1'', ''D1'', ''t'', ''4.0'', ''2.0'', ''3.9'', ''0'', ''extra'']"
  by code_simp

lemma parse_line_empty_fields:
  "parse_line (None, '',,1,,t,4.0,2.0,3.9,0'') =
     [[], [], ''1'', [], ''t'', ''4.0'', ''2.0'', ''3.9'', ''0'']"
  by code_simp

lemma parse_line_six_fields:
  "parse_line (None, ''bat1,g1,1,D1,t,4.0'') = [''bat1'', ''g1'', ''1'', ''D1'', ''t'', ''4.0'']"
  by code_simp

text \<open>
  C10: the record \<^verbatim>\<open>bat1,g1,-3,D1,t,4.0,2.0,3.9,0\<close>, whose cycle is the negative literal
  \<^verbatim>\<open>-3\<close>, is parsed without an error, and its key holds the cycle \<open>-3\<close>: \<^verbatim>\<open>int\<close> is the only
  check on the cycle.
\<close>

theorem negative_cycle_is_parsed:
  "paired (parse_line (None, ''bat1,g1,-3,D1,t,4.0,2.0,3.9,0'')) =
     Inr ((''bat1'', ''g1'', - 3, ''D1''), (''t'', rnd 4, rnd 2, rnd (39 / 10), rnd 0))"
  unfolding parse_line_negative_cycle
  by (simp add: paired_Inr_iff py_float_4_0 py_float_2_0 py_float_3_9 py_float_0 py_int_minus_3)

text \<open>
  C6, as stated: parsing fails if and only if the field count is not nine, a numeric
  field is not numeric, or battery id, group or step is empty. It fails on the code in two
  ways: a record of ten fields is parsed (the tenth is never read), and a record whose
  battery id, group and step are all empty is parsed, with the empty texts in its key.
\<close>

theorem parsing_accepts_counterexample:
  "paired (parse_line (None, ''bat1,g1,1,D1,t,4.0,2.0,3.9,0,extra'')) =
     Inr ((''bat1'', ''g1'', 1, ''D1''), (''t'', rnd 4, rnd 2, rnd (39 / 10), rnd 0))
   \<and> length (parse_line (None, ''bat1,g1,1,D1,t,4.0,2.0,3.9,0,extra'')) = 10
   \<and> paired (parse_line (None, '',,1,,t,4.0,2.0,3.9,0'')) =
     Inr (([], [], 1, []), (''t'', rnd 4, rnd 2, rnd (39 / 10), rnd 0))"
  unfolding parse_line_ten_fields parse_line_empty_fields
  by (simp add: paired_Inr_iff py_float_4_0 py_float_2_0 py_float_3_9 py_float_0 py_int_1)

text \<open>
  C6, amended: parsing a record fails if and only if it has fewer than nine fields, or
  \<^verbatim>\<open>int\<close> rejects the cycle field, or \<^verbatim>\<open>float\<close> rejects one of voltage, current, previous
  voltage and step time; the exception is an IndexError or a ValueError. Otherwise parsing
  returns the typed reading made of the first nine fields: further fields are ignored,
  and battery id, group and step are taken as they are, empty or not.
\<close>

theorem parsing_fails_iff:
  "((\<exists>e. paired (parse_line msg) = Inl e) \<longleftrightarrow>
      length (parse_line msg) < 9
      \<or> (\<exists>e. py_int (parse_line msg ! 2) = Inl e)
      \<or> (\<exists>e. py_float (parse_line msg ! 5) = Inl e)
      \<or> (\<exists>e. py_float (parse_line msg ! 6) = Inl e)
      \<or> (\<exists>e. py_float (parse_line msg ! 7) = Inl e)
      \<or> (\<exists>e. py_float (parse_line msg ! 8) = Inl e))
   \<and> (\<forall>e. paired (parse_line msg) = Inl e \<longrightarrow> e = IndexError \<or> e = ValueError)
   \<and> (\<forall>r. paired (parse_line msg) = Inr r \<longleftrightarrow>
         9 \<le> length (parse_line msg) \<and>
         (\<exists>cycle voltage current prev_voltage step_time.
            py_int (parse_line msg ! 2) = Inr cycle \<and>
            py_float (parse_line msg ! 5) = Inr voltage \<and>
            py_float (parse_line msg ! 6) = Inr current \<and>
            py_float (parse_line msg ! 7) = Inr prev_voltage \<and>
            py_float (parse_line msg ! 8) = Inr step_time \<and>
            r = ((parse_line msg ! 0, parse_line msg ! 1, cycle, parse_line msg ! 3),
                 (parse_line msg ! 4, voltage, current, prev_voltage, step_time))))"
proof -
  have "(\<exists>e. paired (parse_line msg) = Inl e) \<longleftrightarrow>
      length (parse_line msg) < 9
      \<or> (\<exists>e. py_int (parse_line msg ! 2) = Inl e)
      \<or> (\<exists>e. py_float (parse_line msg ! 5) = Inl e)
      \<or> (\<exists>e. py_float (parse_line msg ! 6) = Inl e)
      \<or> (\<exists>e. py_float (parse_line msg ! 7) = Inl e)
      \<or> (\<exists>e. py_float (parse_line msg ! 8) = Inl e)"
    unfolding Inl_iff_not_Inr paired_Inr_iff by auto
  then show ?thesis using paired_error paired_Inr_iff by blast
qed

theorem parsing_fails_iff_witness:
  "(\<exists>e. paired (parse_line (None, ''bat1,g1,1,D1,t,4.0'')) = Inl e)
   \<and> length (parse_line (None, ''bat1,g1,1,D1,t,4.0'')) = 6"
  using parsing_fails_iff[of "(None, ''bat1,g1,1,D1,t,4.0'')"]
  by (simp add: parse_line_six_fields)

section \<open>Rounding\<close>

lemma pow2_powi: "pow2 k = 2 powi k"
  by (simp add: pow2_def power_int_def field_simps)

lemma pow2_pos [simp]: "0 < pow2 k"
  by (simp add: pow2_powi)

lemma pow2_add: "pow2 (a + b) = pow2 a * pow2 b"
  by (simp add: pow2_powi power_int_add)

lemma pow2_diff: "pow2 (a - b) = pow2 a / pow2 b"
  by (simp add: pow2_powi power_int_diff)

lemma pow2_less_iff [simp]: "pow2 a < pow2 b \<longleftrightarrow> a < b"
proof
  assume "pow2 a < pow2 b"
  show "a < b"
  proof (rule ccontr)
    assume "\<not> a < b"
    then have "b \<le> a" by simp
    then have "pow2 b \<le> pow2 a" unfolding pow2_powi by (intro power_int_increasing) auto
    with \<open>pow2 a < pow2 b\<close> show False by simp
  qed
next
  assume "a < b"
  then show "pow2 a < pow2 b" unfolding pow2_powi by (intro power_int_strict_increasing) auto
qed

lemma pow2_le_iff [simp]: "pow2 a \<le> pow2 b \<longleftrightarrow> a \<le> b"
  using pow2_less_iff[of b a] by (auto simp: not_less[symmetric] simp del: pow2_less_iff)

lemma pow2_nat: "0 \<le> k \<Longrightarrow> pow2 k = 2 ^ nat k"
  by (simp add: pow2_def)

lemma pow2_0 [simp]: "pow2 0 = 1"
  by (simp add: pow2_def)

lemma ilog2_bounds:
  assumes "0 < q"
  shows "pow2 (ilog2 q) \<le> q \<and> q < pow2 (ilog2 q + 1)"
proof -
  obtain n d where nd: "quotient_of q = (n, d)" by (cases "quotient_of q")
  have d: "0 < d" using nd by (rule quotient_of_denom_pos)
  have q: "q = of_int n / of_int d" using nd by (rule quotient_of_div)
  have n: "0 < n" using assms d by (simp add: q zero_less_divide_iff)
  define k where "k = bitlen n - bitlen d"
  have bn: "(2::int) ^ nat (bitlen n - 1) \<le> n" "n < 2 ^ nat (bitlen n)"
    using bitlen_bounds[OF n] by auto
  have bd: "(2::int) ^ nat (bitlen d - 1) \<le> d" "d < 2 ^ nat (bitlen d)"
    using bitlen_bounds[OF d] by auto
  have n1: "1 \<le> bitlen n" using n by (auto simp: bitlen_alt_def)
  have d1: "1 \<le> bitlen d" using d by (auto simp: bitlen_alt_def)
  have rn: "pow2 (bitlen n - 1) \<le> of_int n" "rat_of_int n < pow2 (bitlen n)"
  proof -
    have "rat_of_int (2 ^ nat (bitlen n - 1)) \<le> of_int n" using bn(1) by (simp only: of_int_le_iff)
    then show "pow2 (bitlen n - 1) \<le> of_int n" using n1 by (simp add: pow2_nat)
    have "rat_of_int n < of_int (2 ^ nat (bitlen n))" using bn(2) by (simp only: of_int_less_iff)
    then show "rat_of_int n < pow2 (bitlen n)" using n1 by (simp add: pow2_nat)
  qed
  have rd: "pow2 (bitlen d - 1) \<le> of_int d" "rat_of_int d < pow2 (bitlen d)"
  proof -
    have "rat_of_int (2 ^ nat (bitlen d - 1)) \<le> of_int d" using bd(1) by (simp only: of_int_le_iff)
    then show "pow2 (bitlen d - 1) \<le> of_int d" using d1 by (simp add: pow2_nat)
    have "rat_of_int d < of_int (2 ^ nat (bitlen d))" using bd(2) by (simp only: of_int_less_iff)
    then show "rat_of_int d < pow2 (bitlen d)" using d1 by (simp add: pow2_nat)
  qed
  have dpos: "0 < rat_of_int d" using d by simp
  have up: "q < pow2 (k + 1)"
  proof -
    have "q * of_int d = of_int n" using dpos by (simp add: q)
    also have "\<dots> < pow2 (bitlen n)" by (rule rn(2))
    also have "\<dots> = pow2 (k + 1) * pow2 (bitlen d - 1)"
      by (simp add: k_def pow2_add[symmetric])
    also have "\<dots> \<le> pow2 (k + 1) * of_int d"
      using rd(1) by (intro mult_left_mono) (auto simp: less_imp_le)
    finally show ?thesis using dpos by simp
  qed
  have lo: "pow2 (k - 1) < q"
  proof -
    have "pow2 (k - 1) * of_int d < pow2 (k - 1) * pow2 (bitlen d)"
      using rd(2) by (intro mult_strict_left_mono) auto
    also have "\<dots> = pow2 (bitlen n - 1)" by (simp add: k_def pow2_add[symmetric])
    also have "\<dots> \<le> of_int n" by (rule rn(1))
    also have "\<dots> = q * of_int d" using dpos by (simp add: q)
    finally show ?thesis using dpos by simp
  qed
  have il: "ilog2 q = (if pow2 k \<le> q then k else k - 1)"
    by (simp add: ilog2_def nd k_def Let_def)
  show ?thesis
  proof (cases "pow2 k \<le> q")
    case True
    then show ?thesis using up il by simp
  next
    case False
    then show ?thesis using lo il by (simp add: less_imp_le)
  qed
qed

lemma ilog2_unique:
  assumes "0 < q" "pow2 e \<le> q" "q < pow2 (e + 1)"
  shows "ilog2 q = e"
proof -
  have b: "pow2 (ilog2 q) \<le> q" "q < pow2 (ilog2 q + 1)" using ilog2_bounds[OF assms(1)] by auto
  have "pow2 e < pow2 (ilog2 q + 1)" using assms(2) b(2) by (rule le_less_trans)
  then have 1: "e < ilog2 q + 1" by simp
  have "pow2 (ilog2 q) < pow2 (e + 1)" using b(1) assms(3) by (rule le_less_trans)
  then have 2: "ilog2 q < e + 1" by simp
  show ?thesis using 1 2 by simp
qed

lemma ilog2_mono:
  assumes "0 < a" "a \<le> b"
  shows "ilog2 a \<le> ilog2 b"
proof -
  have "pow2 (ilog2 a) \<le> a" using ilog2_bounds[OF assms(1)] by simp
  also have "a \<le> b" by fact
  also have "b < pow2 (ilog2 b + 1)" using ilog2_bounds[of b] assms by simp
  finally show ?thesis by simp
qed

lemma rne_of_int [simp]: "rne (of_int n) = n"
  by (simp add: rne_def)

lemma rne_numeral [simp]: "rne (numeral k) = numeral k"
  using rne_of_int[of "numeral k"] by simp

lemma rne_cert:
  assumes "of_int n - 1 / 2 < x" "x < of_int n + 1 / 2"
  shows "rne x = n"
proof (cases "of_int n \<le> x")
  case True
  then have f: "\<lfloor>x\<rfloor> = n" using assms by (intro floor_unique) auto
  show ?thesis using assms True by (simp add: rne_def f)
next
  case False
  then have f: "\<lfloor>x\<rfloor> = n - 1" using assms by (intro floor_unique) auto
  show ?thesis using assms False by (simp add: rne_def f)
qed


lemma rne_floor: "\<lfloor>x\<rfloor> \<le> rne x" "rne x \<le> \<lfloor>x\<rfloor> + 1"
  by (simp_all add: rne_def Let_def)

lemma rne_mono:
  assumes "x \<le> y"
  shows "rne x \<le> rne y"
proof (cases "\<lfloor>x\<rfloor> = \<lfloor>y\<rfloor>")
  case True
  have "x - of_int \<lfloor>x\<rfloor> \<le> y - of_int \<lfloor>y\<rfloor>" using assms True by simp
  then show ?thesis unfolding rne_def Let_def True by auto
next
  case False
  have "\<lfloor>x\<rfloor> \<le> \<lfloor>y\<rfloor>" using assms by (rule floor_mono)
  then have "\<lfloor>x\<rfloor> + 1 \<le> \<lfloor>y\<rfloor>" using False by simp
  then show ?thesis using rne_floor(2)[of x] rne_floor(1)[of y] by linarith
qed

lemma rne_nonneg: "0 \<le> x \<Longrightarrow> 0 \<le> rne x"
  using rne_mono[of 0 x] rne_of_int[of 0] by simp

lemma rnd_pos: "0 < q \<Longrightarrow> rnd q = (if pow2 1024 \<le> rmag q then PInf else Finite (rmag q))"
  by (simp add: rnd_def rmag_def Let_def)

lemma rnd_neg: "q < 0 \<Longrightarrow> rnd q = (if pow2 1024 \<le> rmag (- q) then NInf else Finite (- rmag (- q)))"
  by (simp add: rnd_def rmag_def Let_def abs_if)

lemma rnd_0 [simp]: "rnd 0 = Finite 0"
  by (simp add: rnd_def)

lemma rmag_cert:
  assumes "0 < q" "pow2 e \<le> q" "q < pow2 (e + 1)" "- 1022 \<le> e"
    and "rne (q / pow2 (e - 52)) = n"
  shows "rmag q = of_int n * pow2 (e - 52)"
proof -
  have "ilog2 q = e" using assms(1-3) by (rule ilog2_unique)
  then show ?thesis using assms(4,5) by (simp add: rmag_def Let_def max_def)
qed

lemma rnd_cert:
  assumes "0 < q" "pow2 e \<le> q" "q < pow2 (e + 1)" "- 1022 \<le> e"
    and "rne (q / pow2 (e - 52)) = n" "of_int n * pow2 (e - 52) < pow2 1024"
  shows "rnd q = Finite (of_int n * pow2 (e - 52))"
  using rmag_cert[OF assms(1-5)] assms(1,6) by (simp add: rnd_pos)

lemma rnd_cert_neg:
  assumes "q < 0" "pow2 e \<le> - q" "- q < pow2 (e + 1)" "- 1022 \<le> e"
    and "rne (- q / pow2 (e - 52)) = n" "of_int n * pow2 (e - 52) < pow2 1024"
  shows "rnd q = Finite (- (of_int n * pow2 (e - 52)))"
  using rmag_cert[of "- q" e n] assms by (simp add: rnd_neg)

section \<open>Keys of the reduction\<close>

lemma mapM_Inr_iff: "mapM f xs = Inr ys \<longleftrightarrow> list_all2 (\<lambda>x y. f x = Inr y) xs ys"
proof (induction xs arbitrary: ys)
  case Nil
  then show ?case by auto
next
  case (Cons x xs)
  then show ?case by (cases ys) (auto simp: bind_Inr_iff)
qed

lemma keys_merge_value:
  "map fst (merge_value f d (k, v)) = (if k \<in> set (map fst d) then map fst d else map fst d @ [k])"
  by (induction d) (force simp: image_iff)+

lemma distinct_foldl_merge:
  "distinct (map fst d) \<Longrightarrow> distinct (map fst (foldl (merge_value f) d xs))"
proof (induction xs arbitrary: d)
  case Nil
  then show ?case by simp
next
  case (Cons x xs)
  obtain k v where x: "x = (k, v)" by (cases x)
  have "distinct (map fst (merge_value f d (k, v)))"
    using Cons.prems by (simp add: keys_merge_value)
  then show ?case using Cons.IH x by simp
qed

lemma set_foldl_merge:
  "set (map fst (foldl (merge_value f) d xs)) = set (map fst d) \<union> set (map fst xs)"
proof (induction xs arbitrary: d)
  case Nil
  then show ?case by simp
next
  case (Cons x xs)
  obtain k v where x: "x = (k, v)" by (cases x)
  have "set (map fst (merge_value f d (k, v))) = insert k (set (map fst d))"
    by (auto simp: keys_merge_value)
  then show ?case using Cons.IH[of "merge_value f d (k, v)"] x by auto
qed

lemma reduceByKey_keys:
  "distinct (map fst (reduceByKey f xs))" "set (map fst (reduceByKey f xs)) = set (map fst xs)"
  unfolding reduceByKey_def
  using distinct_foldl_merge[of "[]" f xs] set_foldl_merge[of f "[]" xs] by simp_all

lemma inst_key: "inst x = Inr y \<Longrightarrow> fst y = fst x"
  by (cases x) (auto simp: inst_def bind_Inr_iff)

lemma list_all2_keys:
  "list_all2 (\<lambda>x y. inst x = Inr y) xs ys \<Longrightarrow> map fst ys = map fst xs"
  by (induction rule: list_all2_induct) (auto dest: inst_key)

lemma summary_key_summarize: "summary_key (summarize x) = fst x"
  by (cases x) (auto simp: summary_key_def summarize_def)

section \<open>One window, end to end\<close>


lemma fmul_Finite: "fmul (Finite a) (Finite b) = rnd (a * b)"
  by (simp add: fmul_def)

lemma ieee_div_Finite: "ieee_div (Finite a) (Finite b) = rnd (a / b)"
  by (simp add: ieee_div_def)

lemma rnd_2: "rnd 2 = Finite 2"
  using rnd_cert[of 2 1 "2 ^ 52"] by (simp add: pow2_def)

lemma rnd_7200000: "rnd 7200000 = Finite 7200000"
  using rnd_cert[of 7200000 22 7730941132800000] by (simp add: pow2_def)

lemma two_ENG_CONVERSION: "fmul (Finite 2) ENG_CONVERSION = Finite 7200000"
  by (simp add: ENG_CONVERSION_def fmul_Finite rnd_7200000)

lemma inst_eq:
  "inst (k, (date_time, voltage, current, prev_voltage, step_time)) =
     Inr (k, (ieee_div (fmul current (Finite 1)) (Finite 3600000),
              ieee_div (fmul (fmul current (fadd voltage prev_voltage)) (Finite 1))
                       (fmul (Finite 2) (Finite 3600000)),
              ieee_div (fmul current voltage) (Finite 1000),
              1))"
  using two_ENG_CONVERSION
  by (simp add: inst_def fdiv_def bind_def DELTA_TIME_def CAP_CONVERSION_def
      ENG_CONVERSION_def PWR_CONVERSION_def)

lemma paired_ex1:
  "paired (parse_line (None, ''bat1,g1,1,D1,t,4.0,2.0,3.9,0'')) =
     Inr ((''bat1'', ''g1'', 1, ''D1''), (''t'', rnd 4, rnd 2, rnd (39 / 10), rnd 0))"
proof -
  have "parse_line (None, ''bat1,g1,1,D1,t,4.0,2.0,3.9,0'') =
     [''bat1'', ''g1'', ''1'', ''D1'', ''t'', ''4.0'', ''2.0'', ''3.9'', ''0'']"
    by code_simp
  then show ?thesis
    by (simp add: paired_Inr_iff py_float_4_0 py_float_2_0 py_float_3_9 py_float_0 py_int_1)
qed

lemma py_float_4_1: "py_float ''4.1'' = Inr (rnd (41 / 10))"
  by (rule py_float_decimalI[where neg=False and r="''4.1''" and q="41/10", simplified if_False])
    code_simp+

lemma paired_ex2:
  "paired (parse_line (None, ''bat1,g1,1,D1,t,4.1,2.0,4.0,0'')) =
     Inr ((''bat1'', ''g1'', 1, ''D1''), (''t'', rnd (41 / 10), rnd 2, rnd 4, rnd 0))"
proof -
  have "parse_line (None, ''bat1,g1,1,D1,t,4.1,2.0,4.0,0'') =
     [''bat1'', ''g1'', ''1'', ''D1'', ''t'', ''4.1'', ''2.0'', ''4.0'', ''0'']"
    by code_simp
  then show ?thesis
    by (simp add: paired_Inr_iff py_float_4_0 py_float_2_0 py_float_4_1 py_float_0 py_int_1)
qed

lemmas pipeline_defs = parsed_rdd_def paired_rdd_def inst_rdd_def total_rdd_def summary_rdd_def
  summarize_step_data_def reduceByKey_def combine_def summarize_def bind_def

text \<open>
  C1: for every parsed reading the value folded into the accumulator of its key is
  \<open>(current * 1.0 / 3.6e6, current * (voltage + previous_voltage) * 1.0 / (2 * 3.6e6),
  current * voltage / 1.0e3, 1)\<close>, in Python's float arithmetic and order of evaluation,
  and computing it never raises. For the two example readings in one window the single
  resulting record has capacity sum \<open>2 * (2.0 / 3.6e6)\<close> and sample count 2, it is in the
  discharge stream and not in the charge stream, and the writer of table
  \<^verbatim>\<open>discharge_capacity\<close> sends one update of row \<open>(g1, 1, bat1)\<close> with that capacity.
\<close>

theorem contribution_of_a_reading:
  "inst (k, (date_time, voltage, current, prev_voltage, step_time)) =
     Inr (k, (ieee_div (fmul current (Finite 1)) (Finite 3600000),
              ieee_div (fmul (fmul current (fadd voltage prev_voltage)) (Finite 1))
                       (fmul (Finite 2) (Finite 3600000)),
              ieee_div (fmul current voltage) (Finite 1000),
              1))
   \<and> (\<exists>e p. summarize_step_data
          [(None, ''bat1,g1,1,D1,t,4.0,2.0,3.9,0''), (None, ''bat1,g1,1,D1,t,4.1,2.0,4.0,0'')] =
        Inr ([(''D1'', ''g1'', 1, ''bat1'',
               fmul (Finite 2) (ieee_div (Finite 2) (Finite 3600000)), e, p, 2)], []))
   \<and> (\<exists>r. main_window
          [(None, ''bat1,g1,1,D1,t,4.0,2.0,3.9,0''), (None, ''bat1,g1,1,D1,t,4.1,2.0,4.0,0'')] =
        Inr r
      \<and> map_of r ''discharge_capacity'' =
          Some [[Update ''discharge_capacity''
                   [fmul (Finite 2) (ieee_div (Finite 2) (Finite 3600000))] ''g1'' 1 ''bat1'']]
      \<and> map_of r ''charge_capacity'' = Some [[]])"
proof -
  have s: "\<exists>e p. summarize_step_data
          [(None, ''bat1,g1,1,D1,t,4.0,2.0,3.9,0''), (None, ''bat1,g1,1,D1,t,4.1,2.0,4.0,0'')] =
        Inr ([(''D1'', ''g1'', 1, ''bat1'',
               fmul (Finite 2) (ieee_div (Finite 2) (Finite 3600000)), e, p, 2)], [])"
    by (simp add: pipeline_defs paired_ex1 paired_ex2 inst_eq rnd_2 fmul_Finite fadd_self
        step_is_eq upper_examples)
  then obtain e p where sp: "summarize_step_data
          [(None, ''bat1,g1,1,D1,t,4.0,2.0,3.9,0''), (None, ''bat1,g1,1,D1,t,4.1,2.0,4.0,0'')] =
        Inr ([(''D1'', ''g1'', 1, ''bat1'',
               fmul (Finite 2) (ieee_div (Finite 2) (Finite 3600000)), e, p, 2)], [])"
    by blast
  have m: "\<exists>r. main_window
          [(None, ''bat1,g1,1,D1,t,4.0,2.0,3.9,0''), (None, ''bat1,g1,1,D1,t,4.1,2.0,4.0,0'')] =
        Inr r
      \<and> map_of r ''discharge_capacity'' =
          Some [[Update ''discharge_capacity''
                   [fmul (Finite 2) (ieee_div (Finite 2) (Finite 3600000))] ''g1'' 1 ''bat1'']]
      \<and> map_of r ''charge_capacity'' = Some [[]]"
    unfolding main_window_def sp
    by (simp add: bind_def send_partition_def capacity_entry_def bind_update_entry)
  show ?thesis using inst_eq s m by blast
qed

lemma mapM_inst_total: "\<exists>ms. mapM inst ps = Inr ms"
proof (induction ps)
  case Nil
  then show ?case by simp
next
  case (Cons p ps)
  obtain k date_time voltage current prev_voltage step_time
    where p: "p = (k, (date_time, voltage, current, prev_voltage, step_time))"
    by (cases p) auto
  from Cons obtain ms where "mapM inst ps = Inr ms" by blast
  then show ?case by (simp add: p inst_eq bind_def)
qed

lemma distinct_filter_one:
  "distinct (map f xs) \<Longrightarrow> k \<in> set (map f xs) \<Longrightarrow> length (filter (\<lambda>x. f x = k) xs) = 1"
proof (induction xs)
  case Nil
  then show ?case by simp
next
  case (Cons x xs)
  show ?case
  proof (cases "f x = k")
    case True
    then have "k \<notin> f ` set xs" using Cons.prems by auto
    then have "filter (\<lambda>x. f x = k) xs = []" by (auto simp: filter_empty_conv)
    then show ?thesis using True by simp
  next
    case False
    then show ?thesis using Cons by auto
  qed
qed

lemma summary_rdd_failure: "paired_rdd w = Inl e \<Longrightarrow> summary_rdd w = Inl e"
  by (simp add: summary_rdd_def total_rdd_def inst_rdd_def bind_def)


lemma mapM_paired_error: "mapM paired xs = Inl e \<Longrightarrow> e = IndexError \<or> e = ValueError"
proof (induction xs)
  case Nil
  then show ?case by simp
next
  case (Cons x xs)
  then show ?case by (auto simp: bind_Inl_iff dest: paired_error)
qed

lemma paired_ex3:
  "paired (parse_line (None, ''bat1,g1,1,C1,t,4.0,2.0,3.9,0'')) =
     Inr ((''bat1'', ''g1'', 1, ''C1''), (''t'', rnd 4, rnd 2, rnd (39 / 10), rnd 0))"
proof -
  have "parse_line (None, ''bat1,g1,1,C1,t,4.0,2.0,3.9,0'') =
     [''bat1'', ''g1'', ''1'', ''C1'', ''t'', ''4.0'', ''2.0'', ''3.9'', ''0'']"
    by code_simp
  then show ?thesis
    by (simp add: paired_Inr_iff py_float_4_0 py_float_2_0 py_float_3_9 py_float_0 py_int_1)
qed

lemma py_int_x: "py_int ''x'' = Inl ValueError"
  by code_simp

lemma paired_bad_cycle:
  "paired (parse_line (None, ''bat2,g1,x,C1,t,4.0,2.0,3.9,0'')) = Inl ValueError"
proof -
  have "parse_line (None, ''bat2,g1,x,C1,t,4.0,2.0,3.9,0'') =
     [''bat2'', ''g1'', ''x'', ''C1'', ''t'', ''4.0'', ''2.0'', ''3.9'', ''0'']"
    by code_simp
  then show ?thesis
    by (simp add: paired_def index_def bind_def py_int_x)
qed

text \<open>
  C8, as stated: for every window, each key among the window's readings has exactly one
  record before routing. It fails for a window that holds a record the parsing lambda
  rejects: \<^verbatim>\<open>int("x")\<close> raises ValueError, the exception ends the job on that window, and
  the key \<open>(bat1, g1, 1, D1)\<close> of the well-formed reading of the same window has no record.
  Alone in a window, that reading has its one record.
\<close>

theorem malformed_record_counterexample:
  "map_sum id (map fst) (paired_rdd [(None, ''bat1,g1,1,D1,t,4.0,2.0,3.9,0'')]) =
     Inr [(''bat1'', ''g1'', 1, ''D1'')]
   \<and> map_sum id (map summary_key) (summary_rdd [(None, ''bat1,g1,1,D1,t,4.0,2.0,3.9,0'')]) =
     Inr [(''bat1'', ''g1'', 1, ''D1'')]
   \<and> map_sum id fst (paired (parse_line (None, ''bat1,g1,1,D1,t,4.0,2.0,3.9,0''))) =
     Inr (''bat1'', ''g1'', 1, ''D1'')
   \<and> paired (parse_line (None, ''bat2,g1,x,C1,t,4.0,2.0,3.9,0'')) = Inl ValueError
   \<and> summary_rdd
       [(None, ''bat1,g1,1,D1,t,4.0,2.0,3.9,0''), (None, ''bat2,g1,x,C1,t,4.0,2.0,3.9,0'')] =
     Inl ValueError
   \<and> summarize_step_data
       [(None, ''bat1,g1,1,D1,t,4.0,2.0,3.9,0''), (None, ''bat2,g1,x,C1,t,4.0,2.0,3.9,0'')] =
     Inl ValueError"
  by (simp add: pipeline_defs paired_ex1 paired_bad_cycle inst_eq summary_key_def)

text \<open>
  C8, amended: for every window whose records all parse, the job produces the records
  before routing, their keys are pairwise different and are exactly the keys of the
  window's readings, and every key of the window has exactly one record. For every window
  with a record that does not parse, the job raises the exception of the first such record
  (IndexError or ValueError) and produces no record at all.
\<close>

theorem one_record_per_key:
  "(\<forall>ps. paired_rdd w = Inr ps \<longrightarrow>
      (\<exists>s. summary_rdd w = Inr s
         \<and> distinct (map summary_key s)
         \<and> set (map summary_key s) = set (map fst ps)
         \<and> (\<forall>k. k \<in> set (map fst ps) \<longrightarrow> length (filter (\<lambda>r. summary_key r = k) s) = 1)))
   \<and> (\<forall>e. paired_rdd w = Inl e \<longrightarrow>
        summary_rdd w = Inl e \<and> (e = IndexError \<or> e = ValueError))"
proof (intro conjI allI impI)
  fix ps assume ps: "paired_rdd w = Inr ps"
  obtain ms where i: "mapM inst ps = Inr ms" using mapM_inst_total by blast
  define s where "s = map summarize (reduceByKey combine ms)"
  have sr: "summary_rdd w = Inr s"
    by (simp add: summary_rdd_def total_rdd_def inst_rdd_def ps i bind_def s_def)
  have k: "map fst ms = map fst ps" using i by (simp add: mapM_Inr_iff list_all2_keys)
  have m: "map summary_key s = map fst (reduceByKey combine ms)"
    by (simp add: s_def summary_key_summarize o_def)
  have d: "distinct (map summary_key s)"
    unfolding m using reduceByKey_keys(1)[of combine ms] .
  have e: "set (map summary_key s) = set (map fst ps)"
    unfolding m using reduceByKey_keys(2)[of combine ms] k by simp
  have o: "\<forall>k. k \<in> set (map fst ps) \<longrightarrow> length (filter (\<lambda>r. summary_key r = k) s) = 1"
    using distinct_filter_one[OF d] e by blast
  show "\<exists>s. summary_rdd w = Inr s
         \<and> distinct (map summary_key s)
         \<and> set (map summary_key s) = set (map fst ps)
         \<and> (\<forall>k. k \<in> set (map fst ps) \<longrightarrow> length (filter (\<lambda>r. summary_key r = k) s) = 1)"
    using sr d e o by blast
next
  fix e assume e: "paired_rdd w = Inl e"
  show "summary_rdd w = Inl e" using e by (rule summary_rdd_failure)
  show "e = IndexError \<or> e = ValueError"
    using e unfolding paired_rdd_def by (rule mapM_paired_error)
qed

theorem one_record_per_key_witness:
  "(\<exists>s. summary_rdd [(None, ''bat1,g1,1,D1,t,4.0,2.0,3.9,0''),
                     (None, ''bat1,g1,1,C1,t,4.0,2.0,3.9,0''),
                     (None, ''bat1,g1,1,D1,t,4.1,2.0,4.0,0'')] = Inr s
     \<and> map summary_key s = [(''bat1'', ''g1'', 1, ''D1''), (''bat1'', ''g1'', 1, ''C1'')]
     \<and> distinct (map summary_key s)
     \<and> length (filter (\<lambda>r. summary_key r = (''bat1'', ''g1'', 1, ''D1'')) s) = 1)
   \<and> paired_rdd [(None, ''bat1,g1,1,D1,t,4.0,2.0,3.9,0''),
                  (None, ''bat2,g1,x,C1,t,4.0,2.0,3.9,0'')] = Inl ValueError
   \<and> summary_rdd [(None, ''bat1,g1,1,D1,t,4.0,2.0,3.9,0''),
                   (None, ''bat2,g1,x,C1,t,4.0,2.0,3.9,0'')] = Inl ValueError"
proof -
  let ?w = "[(None, ''bat1,g1,1,D1,t,4.0,2.0,3.9,0''), (None, ''bat1,g1,1,C1,t,4.0,2.0,3.9,0''),
             (None, ''bat1,g1,1,D1,t,4.1,2.0,4.0,0'')]"
  let ?v = "[(None, ''bat1,g1,1,D1,t,4.0,2.0,3.9,0''), (None, ''bat2,g1,x,C1,t,4.0,2.0,3.9,0'')]"
  obtain ps where ps: "paired_rdd ?w = Inr ps"
      and kp: "map fst ps = [(''bat1'', ''g1'', 1, ''D1''), (''bat1'', ''g1'', 1, ''C1''),
                      (''bat1'', ''g1'', 1, ''D1'')]"
    by (simp add: pipeline_defs paired_ex1 paired_ex2 paired_ex3)
  obtain s0 where s0: "summary_rdd ?w = Inr s0"
      and ks: "map summary_key s0 = [(''bat1'', ''g1'', 1, ''D1''), (''bat1'', ''g1'', 1, ''C1'')]"
    by (simp add: pipeline_defs paired_ex1 paired_ex2 paired_ex3 inst_eq summary_key_def)
  have "\<exists>s. summary_rdd ?w = Inr s
         \<and> distinct (map summary_key s)
         \<and> set (map summary_key s) = set (map fst ps)
         \<and> (\<forall>k. k \<in> set (map fst ps) \<longrightarrow> length (filter (\<lambda>r. summary_key r = k) s) = 1)"
    using one_record_per_key[of ?w, THEN conjunct1] ps by blast
  then have d: "distinct (map summary_key s0)"
    and o: "\<forall>k. k \<in> set (map fst ps) \<longrightarrow> length (filter (\<lambda>r. summary_key r = k) s0) = 1"
    unfolding s0 by auto
  have m: "(''bat1'', ''g1'', 1, ''D1'') \<in> set (map fst ps)" unfolding kp by simp
  have one: "length (filter (\<lambda>r. summary_key r = (''bat1'', ''g1'', 1, ''D1'')) s0) = 1"
    using o m by blast
  have a: "\<exists>s. summary_rdd ?w = Inr s
     \<and> map summary_key s = [(''bat1'', ''g1'', 1, ''D1''), (''bat1'', ''g1'', 1, ''C1'')]
     \<and> distinct (map summary_key s)
     \<and> length (filter (\<lambda>r. summary_key r = (''bat1'', ''g1'', 1, ''D1'')) s) = 1"
    by (rule exI[of _ s0]) (use s0 ks d one in \<open>simp only: simp_thms\<close>)
  have pv: "paired_rdd ?v = Inl ValueError"
    by (simp add: pipeline_defs paired_ex1 paired_bad_cycle)
  have sv: "summary_rdd ?v = Inl ValueError"
    using one_record_per_key[of ?v, THEN conjunct2] pv by blast
  show ?thesis using a pv sv by (simp only: simp_thms)
qed

section \<open>Routing by step\<close>

lemma upper_eq_iff:
  assumes "of_char l = (n::nat)" "65 \<le> n" "n \<le> 90"
  shows "upper c = l \<longleftrightarrow> c = l \<or> c = char_of (n + 32)"
proof -
  define m where "m = (of_char c :: nat)"
  have m: "m < 256" unfolding m_def by simp
  have c: "c = char_of m" unfolding m_def by simp
  have l: "l = char_of n" using assms(1) by auto
  have e: "\<And>a b. a < 256 \<Longrightarrow> b < 256 \<Longrightarrow> (char_of a = char_of b) = (a = (b::nat))"
    by (metis of_char_of mod_less)
  show ?thesis
  proof (cases "97 \<le> m \<and> m \<le> 122")
    case True
    then have u: "upper c = char_of (m - 32)" by (simp add: upper_def m_def)
    have "char_of (m - 32) = char_of n \<longleftrightarrow> m - 32 = n" using m assms by (intro e) auto
    moreover have "char_of m = char_of n \<longleftrightarrow> m = n" using m assms by (intro e) auto
    moreover have "char_of m = char_of (n + 32) \<longleftrightarrow> m = n + 32" using m assms by (intro e) auto
    ultimately show ?thesis unfolding u l unfolding c using True assms by auto
  next
    case False
    then have u: "upper c = c" by (auto simp: upper_def m_def Let_def)
    have "char_of m = char_of (n + 32) \<longleftrightarrow> m = n + 32" using m assms by (intro e) auto
    then show ?thesis unfolding u l unfolding c using False assms by auto
  qed
qed

lemma upper_eq_D: "upper c = CHR ''D'' \<longleftrightarrow> c = CHR ''D'' \<or> c = CHR ''d''"
proof -
  have "char_of (100::nat) = CHR ''d''" by code_simp
  then show ?thesis using upper_eq_iff[of "CHR ''D''" 68 c] by simp
qed

lemma upper_eq_C: "upper c = CHR ''C'' \<longleftrightarrow> c = CHR ''C'' \<or> c = CHR ''c''"
proof -
  have "char_of (99::nat) = CHR ''c''" by code_simp
  then show ?thesis using upper_eq_iff[of "CHR ''C''" 67 c] by simp
qed

lemma filterM_Inr:
  "(\<forall>x\<in>set xs. p x = Inr (q x)) \<Longrightarrow> filterM p xs = Inr (filter q xs)"
  by (induction xs) (simp_all add: bind_def)

lemma step_is_nonempty: "fst x \<noteq> [] \<Longrightarrow> step_is l x = Inr (upper (hd (fst x)) = l)"
  by (cases "fst x") (simp_all add: step_is_eq)

lemma paired_ex4:
  "paired (parse_line (None, ''bat1,g1,1,,t,4.0,2.0,3.9,0'')) =
     Inr ((''bat1'', ''g1'', 1, []), (''t'', rnd 4, rnd 2, rnd (39 / 10), rnd 0))"
proof -
  have "parse_line (None, ''bat1,g1,1,,t,4.0,2.0,3.9,0'') =
     [''bat1'', ''g1'', ''1'', [], ''t'', ''4.0'', ''2.0'', ''3.9'', ''0'']"
    by code_simp
  then show ?thesis
    by (simp add: paired_Inr_iff py_float_4_0 py_float_2_0 py_float_3_9 py_float_0 py_int_1)
qed

text \<open>
  C4, as stated: every finalized record goes to the discharge stream iff the first
  character of its step, in upper case, is \<open>D\<close>, to the charge stream iff it is \<open>C\<close>, and is
  dropped otherwise. It fails for a window that holds a record with an empty step:
  \<^verbatim>\<open>x[0][0]\<close> raises IndexError, so no stream is produced and the record with step \<open>D1\<close>
  of the same window is not emitted to the discharge stream.
\<close>

theorem routing_empty_step_counterexample:
  "summarize_step_data
     [(None, ''bat1,g1,1,D1,t,4.0,2.0,3.9,0''), (None, ''bat1,g1,1,,t,4.0,2.0,3.9,0'')] =
     Inl IndexError
   \<and> map_sum id (map summary_key) (summary_rdd
     [(None, ''bat1,g1,1,D1,t,4.0,2.0,3.9,0''), (None, ''bat1,g1,1,,t,4.0,2.0,3.9,0'')]) =
     Inr [(''bat1'', ''g1'', 1, ''D1''), (''bat1'', ''g1'', 1, [])]"
  by (simp add: pipeline_defs paired_ex1 paired_ex4 inst_eq step_is_eq upper_examples summary_key_def)

text \<open>
  C4, amended: in a window whose finalized records all have a non-empty step, a record
  is emitted to the discharge stream iff the first character of its step is \<open>D\<close> or \<open>d\<close>
  (upper case \<open>D\<close>), to the charge stream iff it is \<open>C\<close> or \<open>c\<close>, and to neither stream
  otherwise; the two streams share no record. Step \<open>d1\<close> goes to discharge, \<open>C\<close> to charge,
  and \<open>x\<close> is dropped.
\<close>

theorem routing_by_first_letter:
  assumes "summary_rdd w = Inr s" and "\<forall>x\<in>set s. fst x \<noteq> []"
  shows "summarize_step_data w =
           Inr (filter (\<lambda>x. upper (hd (fst x)) = CHR ''D'') s,
                filter (\<lambda>x. upper (hd (fst x)) = CHR ''C'') s)
       \<and> set (filter (\<lambda>x. upper (hd (fst x)) = CHR ''D'') s) \<inter>
           set (filter (\<lambda>x. upper (hd (fst x)) = CHR ''C'') s) = {}
       \<and> step_is CHR ''D'' (''d1'', r) = Inr True \<and> step_is CHR ''C'' (''d1'', r) = Inr False
       \<and> step_is CHR ''C'' (''C'', r) = Inr True \<and> step_is CHR ''D'' (''C'', r) = Inr False
       \<and> step_is CHR ''D'' (''x'', r) = Inr False \<and> step_is CHR ''C'' (''x'', r) = Inr False
       \<and> (upper ch = CHR ''D'' \<longleftrightarrow> ch = CHR ''D'' \<or> ch = CHR ''d'')
       \<and> (upper ch = CHR ''C'' \<longleftrightarrow> ch = CHR ''C'' \<or> ch = CHR ''c'')"
proof -
  have d: "filterM (step_is CHR ''D'') s = Inr (filter (\<lambda>x. upper (hd (fst x)) = CHR ''D'') s)"
    using assms(2) by (intro filterM_Inr) (simp add: step_is_nonempty)
  have c: "filterM (step_is CHR ''C'') s = Inr (filter (\<lambda>x. upper (hd (fst x)) = CHR ''C'') s)"
    using assms(2) by (intro filterM_Inr) (simp add: step_is_nonempty)
  have 1: "summarize_step_data w =
           Inr (filter (\<lambda>x. upper (hd (fst x)) = CHR ''D'') s,
                filter (\<lambda>x. upper (hd (fst x)) = CHR ''C'') s)"
    by (simp add: summarize_step_data_def assms(1) d c bind_def)
  have 2: "set (filter (\<lambda>x. upper (hd (fst x)) = CHR ''D'') s) \<inter>
           set (filter (\<lambda>x. upper (hd (fst x)) = CHR ''C'') s) = {}"
    by auto
  show ?thesis using 1 2 upper_eq_D[of ch] upper_eq_C[of ch] by (simp add: step_is_eq upper_examples)
qed


lemma paired_d1:
  "paired (parse_line (None, ''bat1,g1,1,d1,t,4.0,2.0,3.9,0'')) =
     Inr ((''bat1'', ''g1'', 1, ''d1''), (''t'', rnd 4, rnd 2, rnd (39 / 10), rnd 0))"
proof -
  have "parse_line (None, ''bat1,g1,1,d1,t,4.0,2.0,3.9,0'') =
     [''bat1'', ''g1'', ''1'', ''d1'', ''t'', ''4.0'', ''2.0'', ''3.9'', ''0'']"
    by code_simp
  then show ?thesis
    by (simp add: paired_Inr_iff py_float_4_0 py_float_2_0 py_float_3_9 py_float_0 py_int_1)
qed

lemma paired_C:
  "paired (parse_line (None, ''bat1,g1,1,C,t,4.0,2.0,3.9,0'')) =
     Inr ((''bat1'', ''g1'', 1, ''C''), (''t'', rnd 4, rnd 2, rnd (39 / 10), rnd 0))"
proof -
  have "parse_line (None, ''bat1,g1,1,C,t,4.0,2.0,3.9,0'') =
     [''bat1'', ''g1'', ''1'', ''C'', ''t'', ''4.0'', ''2.0'', ''3.9'', ''0'']"
    by code_simp
  then show ?thesis
    by (simp add: paired_Inr_iff py_float_4_0 py_float_2_0 py_float_3_9 py_float_0 py_int_1)
qed

lemma paired_x:
  "paired (parse_line (None, ''bat1,g1,1,x,t,4.0,2.0,3.9,0'')) =
     Inr ((''bat1'', ''g1'', 1, ''x''), (''t'', rnd 4, rnd 2, rnd (39 / 10), rnd 0))"
proof -
  have "parse_line (None, ''bat1,g1,1,x,t,4.0,2.0,3.9,0'') =
     [''bat1'', ''g1'', ''1'', ''x'', ''t'', ''4.0'', ''2.0'', ''3.9'', ''0'']"
    by code_simp
  then show ?thesis
    by (simp add: paired_Inr_iff py_float_4_0 py_float_2_0 py_float_3_9 py_float_0 py_int_1)
qed

theorem routing_by_first_letter_witness:
  "(\<exists>s. summary_rdd [(None, ''bat1,g1,1,d1,t,4.0,2.0,3.9,0''),
                      (None, ''bat1,g1,1,C,t,4.0,2.0,3.9,0''),
                      (None, ''bat1,g1,1,x,t,4.0,2.0,3.9,0'')] = Inr s
      \<and> map fst s = [''d1'', ''C'', ''x'']
      \<and> summarize_step_data [(None, ''bat1,g1,1,d1,t,4.0,2.0,3.9,0''),
                      (None, ''bat1,g1,1,C,t,4.0,2.0,3.9,0''),
                      (None, ''bat1,g1,1,x,t,4.0,2.0,3.9,0'')] =
           Inr (filter (\<lambda>x. upper (hd (fst x)) = CHR ''D'') s,
                filter (\<lambda>x. upper (hd (fst x)) = CHR ''C'') s))
   \<and> map_sum id (\<lambda>r. (map summary_key (fst r), map summary_key (snd r)))
       (summarize_step_data [(None, ''bat1,g1,1,d1,t,4.0,2.0,3.9,0''),
                      (None, ''bat1,g1,1,C,t,4.0,2.0,3.9,0''),
                      (None, ''bat1,g1,1,x,t,4.0,2.0,3.9,0'')]) =
      Inr ([(''bat1'', ''g1'', 1, ''d1'')], [(''bat1'', ''g1'', 1, ''C'')])"
proof -
  let ?w = "[(None, ''bat1,g1,1,d1,t,4.0,2.0,3.9,0''), (None, ''bat1,g1,1,C,t,4.0,2.0,3.9,0''),
             (None, ''bat1,g1,1,x,t,4.0,2.0,3.9,0'')]"
  obtain s where s: "summary_rdd ?w = Inr s" and ks: "map fst s = [''d1'', ''C'', ''x'']"
    by (simp add: pipeline_defs paired_d1 paired_C paired_x inst_eq)
  have "\<forall>y\<in>set (map fst s). y \<noteq> []" unfolding ks by simp
  then have ne: "\<forall>x\<in>set s. fst x \<noteq> []" by simp
  have t: "summarize_step_data ?w =
           Inr (filter (\<lambda>x. upper (hd (fst x)) = CHR ''D'') s,
                filter (\<lambda>x. upper (hd (fst x)) = CHR ''C'') s)"
    using routing_by_first_letter[OF s ne] by simp
  have e: "map_sum id (\<lambda>r. (map summary_key (fst r), map summary_key (snd r)))
       (summarize_step_data ?w) =
      Inr ([(''bat1'', ''g1'', 1, ''d1'')], [(''bat1'', ''g1'', 1, ''C'')])"
    by (simp add: pipeline_defs paired_d1 paired_C paired_x inst_eq step_is_eq upper_examples
        summary_key_def)
  show ?thesis
    using s ks t e by (intro conjI exI[of _ s]) (simp_all only:)
qed

section \<open>Rounding is monotone\<close>

lemma pow2_52: "pow2 52 = of_int (2 ^ 52)" and pow2_53: "pow2 53 = of_int (2 ^ 53)"
  by (simp_all add: pow2_def)

lemma rmag_nonneg: "0 < q \<Longrightarrow> 0 \<le> rmag q"
  by (simp add: rmag_def Let_def rne_nonneg less_imp_le)

lemma rmag_upper:
  assumes "0 < q"
  shows "rmag q \<le> pow2 (max (ilog2 q) (- 1022) + 1)"
proof -
  define E where "E = max (ilog2 q) (- 1022)"
  define u where "u = pow2 (E - 52)"
  have u: "0 < u" by (simp add: u_def)
  have "q < pow2 (ilog2 q + 1)" using ilog2_bounds[OF assms] by simp
  also have "\<dots> \<le> pow2 (E + 1)" by (simp add: E_def)
  finally have "q / u \<le> pow2 (E + 1) / u" using u by (simp add: divide_right_mono less_imp_le)
  also have "pow2 (E + 1) / u = pow2 53" unfolding u_def pow2_diff[symmetric] by simp
  finally have "rne (q / u) \<le> rne (of_int (2 ^ 53))" unfolding pow2_53 by (rule rne_mono)
  then have "rne (q / u) \<le> 2 ^ 53" by (simp only: rne_of_int)
  then have "rat_of_int (rne (q / u)) \<le> of_int (2 ^ 53)" by (simp only: of_int_le_iff)
  then have "of_int (rne (q / u)) * u \<le> pow2 53 * u"
    unfolding pow2_53 using u by (simp add: mult_right_mono less_imp_le)
  also have "pow2 53 * u = pow2 (E + 1)" unfolding u_def pow2_add[symmetric] by (simp add: algebra_simps)
  finally show ?thesis by (simp add: rmag_def Let_def E_def u_def)
qed

lemma rmag_lower:
  assumes "0 < q" "- 1022 \<le> ilog2 q"
  shows "pow2 (ilog2 q) \<le> rmag q"
proof -
  define E where "E = ilog2 q"
  define u where "u = pow2 (E - 52)"
  have u: "0 < u" by (simp add: u_def)
  have m: "max (ilog2 q) (- 1022) = E" using assms(2) by (simp add: E_def)
  have "pow2 E \<le> q" using ilog2_bounds[OF assms(1)] by (simp add: E_def)
  then have "pow2 E / u \<le> q / u" using u by (simp add: divide_right_mono less_imp_le)
  moreover have "pow2 E / u = pow2 52" unfolding u_def pow2_diff[symmetric] by simp
  ultimately have "rne (of_int (2 ^ 52)) \<le> rne (q / u)" unfolding pow2_52 by (intro rne_mono) simp
  then have "2 ^ 52 \<le> rne (q / u)" by (simp only: rne_of_int)
  then have "rat_of_int (2 ^ 52) \<le> of_int (rne (q / u))" by (simp only: of_int_le_iff)
  then have "pow2 52 * u \<le> of_int (rne (q / u)) * u"
    unfolding pow2_52 using u by (simp add: mult_right_mono less_imp_le)
  moreover have "pow2 52 * u = pow2 E" unfolding u_def pow2_add[symmetric] by (simp add: algebra_simps)
  ultimately have "pow2 E \<le> of_int (rne (q / u)) * u" by simp
  moreover have "rmag q = of_int (rne (q / u)) * u" by (simp add: rmag_def Let_def m u_def)
  ultimately show ?thesis by (simp add: E_def)
qed

lemma rmag_mono:
  assumes "0 < a" "a \<le> b"
  shows "rmag a \<le> rmag b"
proof -
  have b: "0 < b" using assms by simp
  define Ea where "Ea = max (ilog2 a) (- 1022)"
  define Eb where "Eb = max (ilog2 b) (- 1022)"
  have le: "Ea \<le> Eb" using ilog2_mono[OF assms] by (simp add: Ea_def Eb_def)
  show ?thesis
  proof (cases "Ea = Eb")
    case True
    have "a / pow2 (Ea - 52) \<le> b / pow2 (Ea - 52)"
      using assms(2) by (simp add: divide_right_mono less_imp_le)
    then have "rne (a / pow2 (Ea - 52)) \<le> rne (b / pow2 (Ea - 52))" by (rule rne_mono)
    then have "rat_of_int (rne (a / pow2 (Ea - 52))) \<le> of_int (rne (b / pow2 (Ea - 52)))"
      by (simp only: of_int_le_iff)
    then have "of_int (rne (a / pow2 (Ea - 52))) * pow2 (Ea - 52)
          \<le> of_int (rne (b / pow2 (Ea - 52))) * pow2 (Ea - 52)"
      by (simp add: mult_right_mono less_imp_le)
    then show ?thesis using True by (simp add: rmag_def Let_def Ea_def Eb_def)
  next
    case False
    then have lt: "Ea < Eb" using le by simp
    then have "- 1022 < Eb" by (simp add: Ea_def)
    then have ib: "Eb = ilog2 b" "- 1022 \<le> ilog2 b" by (auto simp: Eb_def max_def split: if_splits)
    have "rmag a \<le> pow2 (Ea + 1)" using rmag_upper[OF assms(1)] by (simp add: Ea_def)
    also have "\<dots> \<le> pow2 Eb" using lt by simp
    also have "\<dots> \<le> rmag b" using rmag_lower[OF b ib(2)] ib(1) by simp
    finally show ?thesis .
  qed
qed

lemma rnd_mono:
  assumes "a \<le> b"
  shows "fle (rnd a) (rnd b)"
proof -
  consider "0 < a" | "a = 0" "0 < b" | "a = 0" "b = 0" | "a < 0" "0 < b" | "a < 0" "b = 0" | "a < 0" "b < 0"
    using assms by linarith
  then show ?thesis
  proof cases
    case 1
    then have b: "0 < b" using assms by simp
    show ?thesis using rmag_mono[OF 1 assms] by (simp add: rnd_pos 1 b fle_def)
  next
    case 2
    then show ?thesis using rmag_nonneg[of b] by (simp add: rnd_pos fle_def)
  next
    case 3
    then show ?thesis by (simp add: fle_def)
  next
    case 4
    then show ?thesis using rmag_nonneg[of b] rmag_nonneg[of "- a"]
      by (simp add: rnd_pos rnd_neg fle_def)
  next
    case 5
    then show ?thesis using rmag_nonneg[of "- a"] by (simp add: rnd_neg fle_def)
  next
    case 6
    have "rmag (- b) \<le> rmag (- a)" using 6 assms by (intro rmag_mono) auto
    then show ?thesis using 6 by (simp add: rnd_neg fle_def)
  qed
qed

section \<open>Rounded values are floats\<close>

lemma pow2_int: "0 \<le> k \<Longrightarrow> pow2 k = of_int (2 ^ nat k)"
  by (simp add: pow2_def)

lemma pow2_nonzero: "pow2 k \<noteq> 0"
  by (metis less_irrefl pow2_pos)

text \<open>A positive multiple of the unit of its own binade, not above the next power of two, is a float.\<close>

lemma rmag_fixed:
  assumes "0 < q"
  shows "rmag (rmag q) = rmag q \<or> rmag q = 0"
proof (cases "rmag q = 0")
  case True
  then show ?thesis by simp
next
  case False
  define E where "E = max (ilog2 q) (- 1022)"
  define n where "n = rne (q / pow2 (E - 52))"
  define r where "r = rmag q"
  have r: "r = of_int n * pow2 (E - 52)" by (simp add: r_def rmag_def Let_def E_def n_def)
  have rpos: "0 < r" using False rmag_nonneg[OF assms] by (simp add: r_def)
  have E: "- 1022 \<le> E" by (simp add: E_def)
  have up: "r \<le> pow2 (E + 1)" using rmag_upper[OF assms] by (simp add: r_def E_def)
  define E' where "E' = max (ilog2 r) (- 1022)"
  have il: "ilog2 r \<le> E + 1"
  proof -
    have "pow2 (ilog2 r) \<le> r" using ilog2_bounds[OF rpos] by simp
    then have "pow2 (ilog2 r) \<le> pow2 (E + 1)" using up by (rule order_trans)
    then show ?thesis by simp
  qed
  have E'le: "E' \<le> E + 1" using il E by (simp add: E'_def)
  have int: "\<exists>N. r / pow2 (E' - 52) = of_int N"
  proof (cases "E' \<le> E")
    case True
    have "r / pow2 (E' - 52) = of_int n * (pow2 (E - 52) / pow2 (E' - 52))" by (simp add: r)
    also have "pow2 (E - 52) / pow2 (E' - 52) = pow2 (E - E')"
      unfolding pow2_diff[symmetric] by (simp add: algebra_simps)
    also have "pow2 (E - E') = of_int (2 ^ nat (E - E'))" using True by (intro pow2_int) simp
    finally have "r / pow2 (E' - 52) = of_int (n * 2 ^ nat (E - E'))" by simp
    then show ?thesis by blast
  next
    case False
    then have e: "E' = E + 1" using E'le by simp
    then have "ilog2 r = E + 1" using E by (auto simp: E'_def max_def split: if_splits)
    then have "pow2 (E + 1) \<le> r" using ilog2_bounds[OF rpos] by simp
    then have "r = pow2 (E + 1)" using up by simp
    then have "r / pow2 (E' - 52) = pow2 (E + 1) / pow2 (E + 1 - 52)" by (simp add: e)
    also have "\<dots> = pow2 52" unfolding pow2_diff[symmetric] by simp
    also have "\<dots> = of_int (2 ^ 52)" by (simp add: pow2_def)
    finally show ?thesis by blast
  qed
  then obtain N where N: "r / pow2 (E' - 52) = of_int N" by blast
  have "rmag r = of_int (rne (r / pow2 (E' - 52))) * pow2 (E' - 52)"
    by (simp add: rmag_def Let_def E'_def)
  also have "\<dots> = r / pow2 (E' - 52) * pow2 (E' - 52)" unfolding N by (simp only: rne_of_int)
  also have "\<dots> = r" using pow2_nonzero[of "E' - 52"] by simp
  finally show ?thesis by (simp add: r_def)
qed

lemma is_float_rnd: "is_float (rnd q)"
proof -
  consider "q = 0" | "0 < q" | "q < 0" by linarith
  then show ?thesis
  proof cases
    case 1
    then show ?thesis by (simp add: is_float_def)
  next
    case 2
    show ?thesis
    proof (cases "pow2 1024 \<le> rmag q")
      case True
      then show ?thesis using 2 by (simp add: rnd_pos is_float_def)
    next
      case False
      have "rnd (rmag q) = Finite (rmag q)"
      proof (cases "rmag q = 0")
        case True
        then show ?thesis by simp
      next
        case nz: False
        then have p: "0 < rmag q" using rmag_nonneg[OF 2] by simp
        have "rmag (rmag q) = rmag q" using rmag_fixed[OF 2] nz by simp
        then show ?thesis using False p by (simp add: rnd_pos)
      qed
      then show ?thesis using 2 False by (simp add: rnd_pos is_float_def)
    qed
  next
    case 3
    then have p: "0 < - q" by simp
    show ?thesis
    proof (cases "pow2 1024 \<le> rmag (- q)")
      case True
      then show ?thesis using 3 by (simp add: rnd_neg is_float_def)
    next
      case False
      have "rnd (- rmag (- q)) = Finite (- rmag (- q))"
      proof (cases "rmag (- q) = 0")
        case True
        then show ?thesis by simp
      next
        case nz: False
        then have pp: "0 < rmag (- q)" using rmag_nonneg[OF p] by simp
        have "rmag (rmag (- q)) = rmag (- q)" using rmag_fixed[OF p] nz by simp
        then show ?thesis using False pp by (simp add: rnd_neg)
      qed
      then show ?thesis using 3 False by (simp add: rnd_neg is_float_def)
    qed
  qed
qed

lemma is_float_ops:
  "is_float (fadd x y)" "is_float (fmul x y)" "is_float (ieee_div x y)"
proof -
  show "is_float (fadd x y)" by (cases x; cases y) (simp_all add: is_float_rnd, simp_all add: is_float_def)
  show "is_float (fmul x y)" by (cases x; cases y) (simp_all add: fmul_def is_float_rnd, simp_all add: is_float_def Let_def)
  show "is_float (ieee_div x y)" by (cases x; cases y) (simp_all add: ieee_div_def is_float_rnd, simp_all add: is_float_def)
qed

lemma fadd_nondecreasing:
  assumes "is_float x" "x \<noteq> NaN" "0 \<le> d"
  shows "fle x (fadd x (Finite d))"
proof (cases x)
  case (Finite a)
  have "fle (rnd a) (rnd (a + d))" using assms(3) by (intro rnd_mono) simp
  moreover have "rnd a = Finite a" using assms(1) Finite by (simp add: is_float_def)
  ultimately show ?thesis using Finite by simp
qed (use assms in \<open>simp_all add: fle_def\<close>)

section \<open>One fold step\<close>

lemma rnd_2_div: "rnd (2 / 3600000) = Finite (5247073869855161 / 9444732965739290427392)"
proof -
  have r: "rne (2 / 3600000 / pow2 (- 21 - 52)) = 5247073869855161"
    by (rule rne_cert) (simp_all add: pow2_def)
  show ?thesis
    using rnd_cert[of "2 / 3600000" "- 21" 5247073869855161, OF _ _ _ _ r] by (simp add: pow2_def)
qed

lemma rnd_neg_2: "rnd (- 2) = Finite (- 2)"
proof -
  have r: "rne (- (- 2) / pow2 (1 - 52)) = 4503599627370496"
    by (rule rne_cert) (simp_all add: pow2_def)
  show ?thesis
    using rnd_cert_neg[of "- 2" "1" 4503599627370496, OF _ _ _ _ r] by (simp add: pow2_def)
qed

lemma rnd_neg_2_div: "rnd (- 2 / 3600000) = Finite (- (5247073869855161 / 9444732965739290427392))"
proof -
  have r: "rne (- (- 2 / 3600000) / pow2 (- 21 - 52)) = 5247073869855161"
    by (rule rne_cert) (simp_all add: pow2_def)
  show ?thesis
    using rnd_cert_neg[of "- 2 / 3600000" "- 21" 5247073869855161, OF _ _ _ _ r] by (simp add: pow2_def)
qed

lemma div_2: "ieee_div (Finite 2) (Finite 3600000) = Finite (5247073869855161 / 9444732965739290427392)"
  unfolding ieee_div_Finite using rnd_2_div by simp

lemma div_neg_2: "ieee_div (Finite (- 2)) (Finite 3600000) = Finite (- (5247073869855161 / 9444732965739290427392))"
  unfolding ieee_div_Finite using rnd_neg_2_div by simp

lemma py_float_neg_2_0: "py_float ''-2.0'' = Inr (rnd (- 2))"
  by (rule py_float_decimalI[where neg=True and r="''2.0''" and q=2, simplified if_True])
    code_simp+

lemma paired_neg_current:
  "paired (parse_line (None, ''bat1,g1,1,D1,t,4.0,-2.0,3.9,0'')) =
     Inr ((''bat1'', ''g1'', 1, ''D1''), (''t'', rnd 4, rnd (- 2), rnd (39 / 10), rnd 0))"
proof -
  have "parse_line (None, ''bat1,g1,1,D1,t,4.0,-2.0,3.9,0'') =
     [''bat1'', ''g1'', ''1'', ''D1'', ''t'', ''4.0'', ''-2.0'', ''3.9'', ''0'']"
    by code_simp
  then show ?thesis
    by (simp add: paired_Inr_iff py_float_4_0 py_float_neg_2_0 py_float_3_9 py_float_0 py_int_1)
qed

text \<open>
  C7, as stated: after each fold step all four fields of a key's accumulator have not
  decreased, and the count has grown by one. It fails for the three sums: nothing in the
  code makes a contribution non-negative. A reading with current \<open>2.0\<close> followed by one
  with current \<open>-2.0\<close> under the same key takes the capacity sum from
  \<open>2.0 / 3.6e6 > 0\<close> down to \<open>0\<close>.
\<close>

theorem negative_current_counterexample:
  "map_sum id (map (\<lambda>x. capacity_sum (snd x)))
     (total_rdd [(None, ''bat1,g1,1,D1,t,4.0,2.0,3.9,0'')]) = Inr [Finite (5247073869855161 / 9444732965739290427392)]
   \<and> map_sum id (map (\<lambda>x. capacity_sum (snd x)))
     (total_rdd [(None, ''bat1,g1,1,D1,t,4.0,2.0,3.9,0''),
                 (None, ''bat1,g1,1,D1,t,4.0,-2.0,3.9,0'')]) = Inr [Finite 0]
   \<and> \<not> fle (Finite (5247073869855161 / 9444732965739290427392)) (Finite 0)"
  by (simp add: pipeline_defs paired_ex1 paired_neg_current inst_eq rnd_2 rnd_neg_2 fmul_Finite
      div_2 div_neg_2 capacity_sum_def fle_def)


lemma inst_is_float:
  assumes "inst x = Inr (k, j)"
  shows "sample_count j = 1" "is_float (capacity_sum j)" "is_float (energy_sum j)"
    "is_float (power_sum j)"
proof -
  obtain k' date_time voltage current prev_voltage step_time
    where x: "x = (k', (date_time, voltage, current, prev_voltage, step_time))"
    by (cases x) auto
  have j: "j = (ieee_div (fmul current (Finite 1)) (Finite 3600000),
              ieee_div (fmul (fmul current (fadd voltage prev_voltage)) (Finite 1))
                       (fmul (Finite 2) (Finite 3600000)),
              ieee_div (fmul current voltage) (Finite 1000),
              1)"
    using assms unfolding x inst_eq by simp
  show "sample_count j = 1" by (simp add: j sample_count_def)
  show "is_float (capacity_sum j)" by (simp add: j capacity_sum_def is_float_ops)
  show "is_float (energy_sum j)" by (simp add: j energy_sum_def is_float_ops)
  show "is_float (power_sum j)" by (simp add: j power_sum_def is_float_ops)
qed

lemma combine_fields:
  "capacity_sum (combine i j) = fadd (capacity_sum i) (capacity_sum j)"
  "energy_sum (combine i j) = fadd (energy_sum i) (energy_sum j)"
  "power_sum (combine i j) = fadd (power_sum i) (power_sum j)"
  "sample_count (combine i j) = sample_count i + sample_count j"
  by (cases i; cases j;
      simp add: combine_def capacity_sum_def energy_sum_def power_sum_def sample_count_def)+

text \<open>
  C7, amended: when a reading is folded into a key's accumulator, the sample count grows
  by exactly 1, and each of the three sums becomes the float sum of its old value and the
  reading's contribution. A sum does not decrease in a fold step whose contribution to it
  is a finite number that is not negative (the old value being a float other than NaN,
  as every value the fold produces is unless a NaN or opposite infinities came in).
\<close>

theorem fold_step:
  assumes "inst x = Inr (k, j)"
  shows "sample_count (combine acc j) = sample_count acc + 1
     \<and> capacity_sum (combine acc j) = fadd (capacity_sum acc) (capacity_sum j)
     \<and> energy_sum (combine acc j) = fadd (energy_sum acc) (energy_sum j)
     \<and> power_sum (combine acc j) = fadd (power_sum acc) (power_sum j)
     \<and> is_float (capacity_sum j) \<and> is_float (energy_sum j) \<and> is_float (power_sum j)
     \<and> is_float (capacity_sum (combine acc j)) \<and> is_float (energy_sum (combine acc j))
     \<and> is_float (power_sum (combine acc j))
     \<and> (\<forall>d. capacity_sum j = Finite d \<and> 0 \<le> d \<and> is_float (capacity_sum acc)
            \<and> capacity_sum acc \<noteq> NaN
          \<longrightarrow> fle (capacity_sum acc) (capacity_sum (combine acc j)))
     \<and> (\<forall>d. energy_sum j = Finite d \<and> 0 \<le> d \<and> is_float (energy_sum acc)
            \<and> energy_sum acc \<noteq> NaN
          \<longrightarrow> fle (energy_sum acc) (energy_sum (combine acc j)))
     \<and> (\<forall>d. power_sum j = Finite d \<and> 0 \<le> d \<and> is_float (power_sum acc)
            \<and> power_sum acc \<noteq> NaN
          \<longrightarrow> fle (power_sum acc) (power_sum (combine acc j)))"
  using inst_is_float[OF assms]
  by (simp add: combine_fields is_float_ops fadd_nondecreasing)

theorem fold_step_witness:
  "inst ((''bat1'', ''g1'', 1, ''D1''), (''t'', Finite 4, Finite 2, Finite 4, Finite 0)) =
     Inr ((''bat1'', ''g1'', 1, ''D1''),
          (ieee_div (fmul (Finite 2) (Finite 1)) (Finite 3600000),
           ieee_div (fmul (fmul (Finite 2) (fadd (Finite 4) (Finite 4))) (Finite 1))
                    (fmul (Finite 2) (Finite 3600000)),
           ieee_div (fmul (Finite 2) (Finite 4)) (Finite 1000), 1))
   \<and> capacity_sum (ieee_div (fmul (Finite 2) (Finite 1)) (Finite 3600000),
           ieee_div (fmul (fmul (Finite 2) (fadd (Finite 4) (Finite 4))) (Finite 1))
                    (fmul (Finite 2) (Finite 3600000)),
           ieee_div (fmul (Finite 2) (Finite 4)) (Finite 1000), 1) =
       Finite (5247073869855161 / 9444732965739290427392)
   \<and> sample_count (combine
          (Finite (5247073869855161 / 9444732965739290427392), Finite 0, Finite 0, 5)
          (ieee_div (fmul (Finite 2) (Finite 1)) (Finite 3600000),
           ieee_div (fmul (fmul (Finite 2) (fadd (Finite 4) (Finite 4))) (Finite 1))
                    (fmul (Finite 2) (Finite 3600000)),
           ieee_div (fmul (Finite 2) (Finite 4)) (Finite 1000), 1)) = 6
   \<and> fle (Finite (5247073869855161 / 9444732965739290427392))
         (capacity_sum (combine
          (Finite (5247073869855161 / 9444732965739290427392), Finite 0, Finite 0, 5)
          (ieee_div (fmul (Finite 2) (Finite 1)) (Finite 3600000),
           ieee_div (fmul (fmul (Finite 2) (fadd (Finite 4) (Finite 4))) (Finite 1))
                    (fmul (Finite 2) (Finite 3600000)),
           ieee_div (fmul (Finite 2) (Finite 4)) (Finite 1000), 1)))"
proof -
  let ?x = "((''bat1'', ''g1'', 1, ''D1''), (''t'', Finite 4, Finite 2, Finite 4, Finite 0))"
  let ?j = "(ieee_div (fmul (Finite 2) (Finite 1)) (Finite 3600000),
           ieee_div (fmul (fmul (Finite 2) (fadd (Finite 4) (Finite 4))) (Finite 1))
                    (fmul (Finite 2) (Finite 3600000)),
           ieee_div (fmul (Finite 2) (Finite 4)) (Finite 1000), 1)"
  let ?acc = "(Finite (5247073869855161 / 9444732965739290427392), Finite 0, Finite 0, 5::int)"
  have i: "inst ?x = Inr ((''bat1'', ''g1'', 1, ''D1''), ?j)" by (rule inst_eq)
  have c: "capacity_sum ?j = Finite (5247073869855161 / 9444732965739290427392)"
    by (simp add: capacity_sum_def fmul_Finite rnd_2 div_2)
  have f: "is_float (capacity_sum ?acc)"
    using is_float_ops(3)[of "Finite 2" "Finite 3600000"] by (simp add: div_2 capacity_sum_def)
  have a: "capacity_sum ?acc = Finite (5247073869855161 / 9444732965739290427392)"
    by (simp add: capacity_sum_def)
  have s: "sample_count ?acc = 5" by (simp add: sample_count_def)
  note T = fold_step[OF i, of ?acc]
  have cnt: "sample_count (combine ?acc ?j) = 6"
    using T[THEN conjunct1] unfolding s by simp
  have "\<forall>d. capacity_sum ?j = Finite d \<and> 0 \<le> d \<and> is_float (capacity_sum ?acc)
            \<and> capacity_sum ?acc \<noteq> NaN
          \<longrightarrow> fle (capacity_sum ?acc) (capacity_sum (combine ?acc ?j))"
    using T by blast
  then have "capacity_sum ?j = Finite (5247073869855161 / 9444732965739290427392)
        \<and> (0::rat) \<le> 5247073869855161 / 9444732965739290427392
        \<and> is_float (capacity_sum ?acc) \<and> capacity_sum ?acc \<noteq> NaN
       \<longrightarrow> fle (capacity_sum ?acc) (capacity_sum (combine ?acc ?j))"
    by (rule spec)
  moreover have "capacity_sum ?acc \<noteq> NaN" unfolding a by simp
  moreover have "(0::rat) \<le> 5247073869855161 / 9444732965739290427392" by simp
  ultimately have "fle (capacity_sum ?acc) (capacity_sum (combine ?acc ?j))"
    using c f by blast
  then have m: "fle (Finite (5247073869855161 / 9444732965739290427392))
      (capacity_sum (combine ?acc ?j))"
    unfolding a .
  show ?thesis by (intro conjI) (rule i c cnt m)+
qed

section \<open>The order of the readings\<close>














































end
